theory Spec2Isabelle
  imports Complex_Main "HOL-Library.Sublist" "HOL-Library.AList"
begin

section \<open>Values shared by both programs\<close>

text \<open>
  The documents read by \<^verbatim>\<open>json.load\<close>. A Python dict keeps its keys in insertion
  order, so an object is an association list. Integers are unbounded. The type \<open>'f\<close>
  stands for Python's binary floating-point numbers: nothing in this development
  looks inside a float, every operation on one is a primitive of \<open>'f arith\<close> below.
\<close>

datatype 'f json =
    JNull
  | JBool bool
  | JInt int
  | JFloat 'f
  | JStr string
  | JArr "'f json list"
  | JObj "(string \<times> 'f json) list"

text \<open>
  The exceptions that the two programs raise or meet. \<open>MissingDimensions\<close> is
  \<^verbatim>\<open>ValueError("Image dimensions not found in JSON")\<close>, \<open>UnknownClass\<close> is
  \<^verbatim>\<open>ValueError(f"Unknown class '{label}' found in annotations")\<close>, \<open>NoClassSource\<close> is
  \<^verbatim>\<open>ValueError("Either --classes-file or --classes must be specified")\<close> and
  \<open>UsageError\<close> is the exit of \<^verbatim>\<open>parser.error\<close>. The message texts are not modelled.
\<close>

datatype error =
    MissingDimensions
  | UnknownClass
  | NoClassSource
  | UsageError
  | ValueError
  | TypeError
  | AttributeError
  | IndexError
  | KeyError
  | ZeroDivisionError
  | OverflowError
  | UnicodeDecodeError
  | JSONDecodeError
  | OSError
  | NameError string

definition overflow :: "'a option \<Rightarrow> error + 'a" where
  "overflow r = (case r of None \<Rightarrow> Inl OverflowError | Some x \<Rightarrow> Inr x)"

definition bnd :: "error + 'a \<Rightarrow> ('a \<Rightarrow> error + 'b) \<Rightarrow> error + 'b" where
  "bnd m k = (case m of Inl e \<Rightarrow> Inl e | Inr x \<Rightarrow> k x)"

text \<open>A number as Python's arithmetic sees it: \<^verbatim>\<open>bool\<close> is a subclass of \<^verbatim>\<open>int\<close>.\<close>

datatype 'f num = I int | F 'f

fun as_num :: "'f json \<Rightarrow> 'f num option" where
  "as_num (JInt n) = Some (I n)"
| "as_num (JBool b) = Some (I (if b then 1 else 0))"
| "as_num (JFloat x) = Some (F x)"
| "as_num _ = None"

text \<open>
  The floating-point primitives of the interpreter, taken as parameters:
  \<open>fzero\<close> tells whether a float is zero, \<open>truediv\<close> is \<^verbatim>\<open>a / b\<close> on two numbers with
  a non-zero divisor, \<open>fmt d\<close> is the format specification \<^verbatim>\<open>.df\<close> applied to a number.
  The only exception of either is \<^verbatim>\<open>OverflowError\<close> (an integer beyond the float
  range), the result \<open>None\<close>.
\<close>

record 'f arith =
  fzero :: "'f \<Rightarrow> bool"
  truediv :: "'f num \<Rightarrow> 'f num \<Rightarrow> 'f option"
  fmt :: "nat \<Rightarrow> 'f num \<Rightarrow> string option"

fun num_is_zero :: "'f arith \<Rightarrow> 'f num \<Rightarrow> bool" where
  "num_is_zero P (I n) = (n = 0)"
| "num_is_zero P (F x) = fzero P x"

text \<open>Truth value testing (\<^verbatim>\<open>if not x\<close>).\<close>

fun truthy :: "'f arith \<Rightarrow> 'f json \<Rightarrow> bool" where
  "truthy P JNull = False"
| "truthy P (JBool b) = b"
| "truthy P (JInt n) = (n \<noteq> 0)"
| "truthy P (JFloat x) = (\<not> fzero P x)"
| "truthy P (JStr s) = (s \<noteq> [])"
| "truthy P (JArr xs) = (xs \<noteq> [])"
| "truthy P (JObj kvs) = (kvs \<noteq> [])"

text \<open>\<^verbatim>\<open>x.get(key, default)\<close>: only a dict has the method.\<close>

fun py_get :: "'f json \<Rightarrow> string \<Rightarrow> 'f json \<Rightarrow> error + 'f json" where
  "py_get (JObj kvs) k d = Inr (case map_of kvs k of None \<Rightarrow> d | Some v \<Rightarrow> v)"
| "py_get _ k d = Inl AttributeError"

text \<open>\<^verbatim>\<open>for x in v\<close>: a list gives its elements, a dict its keys, a string its characters.\<close>

fun py_iter :: "'f json \<Rightarrow> error + 'f json list" where
  "py_iter (JArr xs) = Inr xs"
| "py_iter (JObj kvs) = Inr (map (\<lambda>kv. JStr (fst kv)) kvs)"
| "py_iter (JStr s) = Inr (map (\<lambda>c. JStr [c]) s)"
| "py_iter _ = Inl TypeError"

text \<open>\<^verbatim>\<open>p[i]\<close> for a literal index \<open>i\<close> (0 or 1 in the source). The keys of a JSON object
  are strings, so an integer subscript of a dict is always a \<^verbatim>\<open>KeyError\<close>.\<close>

fun py_getitem :: "'f json \<Rightarrow> nat \<Rightarrow> error + 'f json" where
  "py_getitem (JArr xs) i = (if i < length xs then Inr (xs ! i) else Inl IndexError)"
| "py_getitem (JStr s) i = (if i < length s then Inr (JStr [s ! i]) else Inl IndexError)"
| "py_getitem (JObj kvs) i = Inl KeyError"
| "py_getitem _ i = Inl TypeError"

text \<open>\<^verbatim>\<open>a / b\<close>.\<close>

definition py_truediv :: "'f arith \<Rightarrow> 'f json \<Rightarrow> 'f json \<Rightarrow> error + 'f" where
  "py_truediv P a b =
     (case as_num a of
        None \<Rightarrow> Inl TypeError
      | Some x \<Rightarrow>
         (case as_num b of
            None \<Rightarrow> Inl TypeError
          | Some y \<Rightarrow> if num_is_zero P y then Inl ZeroDivisionError else overflow (truediv P x y)))"

text \<open>\<^verbatim>\<open>f"{v:.df}"\<close>: a string refuses the format code, the other non-numbers have no
  such format.\<close>

definition py_format :: "'f arith \<Rightarrow> nat \<Rightarrow> 'f json \<Rightarrow> error + string" where
  "py_format P d v =
     (case as_num v of
        Some x \<Rightarrow> overflow (fmt P d x)
      | None \<Rightarrow> (case v of JStr s \<Rightarrow> Inl ValueError | _ \<Rightarrow> Inl TypeError))"

text \<open>\<^verbatim>\<open>label in classes\<close> and \<^verbatim>\<open>classes.index(label)\<close> on a list of strings: a value
  that is not a string equals none of them.\<close>

fun py_in :: "'f json \<Rightarrow> string list \<Rightarrow> bool" where
  "py_in (JStr l) classes = (l \<in> set classes)"
| "py_in _ classes = False"

fun index_from :: "nat \<Rightarrow> string \<Rightarrow> string list \<Rightarrow> error + nat" where
  "index_from i l [] = Inl ValueError"
| "index_from i l (c # cs) = (if c = l then Inr i else index_from (Suc i) l cs)"

fun py_index :: "string list \<Rightarrow> 'f json \<Rightarrow> error + nat" where
  "py_index classes (JStr l) = index_from 0 l classes"
| "py_index classes _ = Inl ValueError"

text \<open>\<^verbatim>\<open>sep.join(xs)\<close>, \<^verbatim>\<open>str(n)\<close> of a natural number, and mapping a fallible function
  over a list (a list comprehension whose body may raise).\<close>

fun py_join :: "string \<Rightarrow> string list \<Rightarrow> string" where
  "py_join sep [] = []"
| "py_join sep [x] = x"
| "py_join sep (x # y # ys) = x @ sep @ py_join sep (y # ys)"

fun str_nat :: "nat \<Rightarrow> string" where
  "str_nat n = (if n < 10 then [''0123456789'' ! n] else str_nat (n div 10) @ [''0123456789'' ! (n mod 10)])"

declare str_nat.simps [simp del]

fun map_err :: "('a \<Rightarrow> error + 'b) \<Rightarrow> 'a list \<Rightarrow> error + 'b list" where
  "map_err f [] = Inr []"
| "map_err f (x # xs) = bnd (f x) (\<lambda>y. bnd (map_err f xs) (\<lambda>ys. Inr (y # ys)))"

section \<open>The converter: \<^verbatim>\<open>json2txt_converter.py\<close>\<close>

subsection \<open>\<^verbatim>\<open>load_classes\<close>\<close>

text \<open>
  \<^verbatim>\<open>str.strip()\<close> and \<^verbatim>\<open>str.split(',')\<close>. A character is a code point below 256;
  those that \<^verbatim>\<open>str.isspace\<close> accepts are tab, line feed, vertical tab, form feed,
  carriage return, the four separators 28 to 31, space, next line (133) and
  no-break space (160).
\<close>

definition is_space :: "char \<Rightarrow> bool" where
  "is_space c = (of_char c \<in> {9, 10, 11, 12, 13, 28, 29, 30, 31, 32, 133, 160 :: nat})"

definition py_strip :: "string \<Rightarrow> string" where
  "py_strip s = rev (dropWhile is_space (rev (dropWhile is_space s)))"

fun py_split :: "char \<Rightarrow> string \<Rightarrow> string list" where
  "py_split c [] = [[]]"
| "py_split c (x # xs) =
     (if x = c then [] # py_split c xs
      else (case py_split c xs of [] \<Rightarrow> [[x]] | w # ws \<Rightarrow> (x # w) # ws))"

text \<open>
  An argument that was not given is \<^verbatim>\<open>None\<close>; \<^verbatim>\<open>if classes_file\<close> is also false for
  the empty string. \<open>read_lines\<close> is the file system: the lines of the file at a path,
  or the exception that \<^verbatim>\<open>open\<close> raises.
\<close>

definition given :: "string option \<Rightarrow> bool" where
  "given a = (case a of None \<Rightarrow> False | Some s \<Rightarrow> s \<noteq> [])"

definition load_classes ::
  "(string \<Rightarrow> error + string list) \<Rightarrow> string option \<Rightarrow> string option \<Rightarrow> error + string list" where
  "load_classes read_lines classes_file classes_str =
     (if given classes_file then
        bnd (read_lines (the classes_file))
          (\<lambda>f. Inr (map py_strip (filter (\<lambda>line. py_strip line \<noteq> []) f)))
      else if given classes_str then
        Inr (map py_strip (filter (\<lambda>cls. py_strip cls \<noteq> []) (py_split CHR '','' (the classes_str))))
      else Inl NoClassSource)"

subsection \<open>\<^verbatim>\<open>convert_json_to_txt\<close>\<close>

text \<open>The body of the loop over the shapes: \<open>None\<close> is \<^verbatim>\<open>continue\<close>, \<open>Some\<close> the line
  appended to \<^verbatim>\<open>txt_content\<close>.\<close>

definition yolo_point :: "'f arith \<Rightarrow> 'f json \<Rightarrow> 'f json \<Rightarrow> 'f json \<Rightarrow> error + string" where
  "yolo_point P img_w img_h p =
     bnd (py_getitem p 0) (\<lambda>p0.
     bnd (py_truediv P p0 img_w) (\<lambda>qx.
     bnd (overflow (fmt P 6 (F qx))) (\<lambda>sx.
     bnd (py_getitem p 1) (\<lambda>p1.
     bnd (py_truediv P p1 img_h) (\<lambda>qy.
     bnd (overflow (fmt P 6 (F qy))) (\<lambda>sy.
     Inr (sx @ '' '' @ sy)))))))"

definition voc_point :: "'f arith \<Rightarrow> 'f json \<Rightarrow> error + string" where
  "voc_point P p =
     bnd (py_getitem p 0) (\<lambda>p0.
     bnd (py_format P 1 p0) (\<lambda>sx.
     bnd (py_getitem p 1) (\<lambda>p1.
     bnd (py_format P 1 p1) (\<lambda>sy.
     Inr (sx @ '' '' @ sy)))))"

definition shape_line ::
  "'f arith \<Rightarrow> string list \<Rightarrow> 'f json \<Rightarrow> 'f json \<Rightarrow> string \<Rightarrow> 'f json \<Rightarrow> error + string option" where
  "shape_line P classes img_w img_h format shape =
     bnd (py_get shape ''label'' JNull) (\<lambda>label.
       if \<not> truthy P label then Inr None
       else if \<not> py_in label classes then Inl UnknownClass
       else
         bnd (py_get shape ''points'' (JArr [])) (\<lambda>points.
           if \<not> truthy P points then Inr None
           else
             bnd (py_index classes label) (\<lambda>class_idx.
               if format = ''yolo'' then
                 bnd (py_iter points) (\<lambda>ps.
                 bnd (map_err (yolo_point P img_w img_h) ps) (\<lambda>normalized.
                 Inr (Some (str_nat class_idx @ '' '' @ py_join '' '' normalized @ [CHR 10]))))
               else
                 bnd (py_iter points) (\<lambda>ps.
                 bnd (map_err (voc_point P) ps) (\<lambda>coordinates.
                 bnd (case label of JStr l \<Rightarrow> Inr l | _ \<Rightarrow> Inl TypeError) (\<lambda>l.
                 Inr (Some (l @ '' '' @ py_join '' '' coordinates @ [CHR 10]))))))))"

text \<open>The loop over the shapes, with \<^verbatim>\<open>txt_content\<close> as accumulator; an exception
  leaves the loop and the whole \<^verbatim>\<open>try\<close> block.\<close>

fun shapes_loop ::
  "'f arith \<Rightarrow> string list \<Rightarrow> 'f json \<Rightarrow> 'f json \<Rightarrow> string \<Rightarrow> 'f json list \<Rightarrow> string list
     \<Rightarrow> error + string list" where
  "shapes_loop P classes img_w img_h format [] txt_content = Inr txt_content"
| "shapes_loop P classes img_w img_h format (shape # shapes) txt_content =
     (case shape_line P classes img_w img_h format shape of
        Inl e \<Rightarrow> Inl e
      | Inr None \<Rightarrow> shapes_loop P classes img_w img_h format shapes txt_content
      | Inr (Some txt_line) \<Rightarrow>
          shapes_loop P classes img_w img_h format shapes (txt_content @ [txt_line]))"

text \<open>The \<^verbatim>\<open>try\<close> block from the parsed document to the lines to write.\<close>

definition file_lines ::
  "'f arith \<Rightarrow> string list \<Rightarrow> string \<Rightarrow> 'f json \<Rightarrow> error + string list" where
  "file_lines P classes format data =
     bnd (py_get data ''imageHeight'' JNull) (\<lambda>img_h.
     bnd (py_get data ''imageWidth'' JNull) (\<lambda>img_w.
       if \<not> truthy P img_h \<or> \<not> truthy P img_w then Inl MissingDimensions
       else
         bnd (py_get data ''shapes'' (JArr [])) (\<lambda>shapes.
         bnd (py_iter shapes) (\<lambda>ss.
         shapes_loop P classes img_w img_h format ss []))))"

text \<open>
  File names. \<^verbatim>\<open>str.lower()\<close> on the ASCII letters (no other character lowers to a
  letter of the extensions tested here), \<^verbatim>\<open>str.endswith\<close>, \<^verbatim>\<open>str.rfind\<close> of a
  character, \<^verbatim>\<open>os.path.join\<close> and \<^verbatim>\<open>os.path.splitext\<close> of \<^verbatim>\<open>posixpath\<close>: the
  extension starts at the last dot, unless only dots stand between the last slash
  and it.
\<close>

definition py_lower_char :: "char \<Rightarrow> char" where
  "py_lower_char c =
     (case map_of (zip ''ABCDEFGHIJKLMNOPQRSTUVWXYZ'' ''abcdefghijklmnopqrstuvwxyz'') c of
        None \<Rightarrow> c
      | Some d \<Rightarrow> d)"

definition py_lower :: "string \<Rightarrow> string" where
  "py_lower s = map py_lower_char s"

definition py_endswith :: "string \<Rightarrow> string \<Rightarrow> bool" where
  "py_endswith s suf = suffix suf s"

definition rfind :: "string \<Rightarrow> char \<Rightarrow> int" where
  "rfind p c =
     (if c \<in> set p then int (length p) - 1 - int (length (takeWhile (\<lambda>x. x \<noteq> c) (rev p)))
      else - 1)"

definition splitext :: "string \<Rightarrow> string \<times> string" where
  "splitext p =
     (let sepIndex = rfind p CHR ''/'';
          dotIndex = rfind p CHR ''.''
      in if dotIndex > sepIndex \<and>
            \<not> list_all (\<lambda>c. c = CHR ''.'')
                (take (nat dotIndex - nat (sepIndex + 1)) (drop (nat (sepIndex + 1)) p))
         then (take (nat dotIndex) p, drop (nat dotIndex) p)
         else (p, []))"

definition os_path_join :: "string \<Rightarrow> string \<Rightarrow> string" where
  "os_path_join a b =
     (if b \<noteq> [] \<and> hd b = CHR ''/'' then b
      else if a = [] \<or> last a = CHR ''/'' then a @ b
      else a @ ''/'' @ b)"

text \<open>
  What \<^verbatim>\<open>open\<close> and \<^verbatim>\<open>json.load\<close> make of one file of the directory: the bytes are
  not text, the text is not JSON, the file cannot be read at all, or a document.
  A directory is the list that \<^verbatim>\<open>os.listdir\<close> returns, each name with its reading.
  The names written by the converter end in \<^verbatim>\<open>.txt\<close>, so no write changes a later
  reading even when both directories are the same.
\<close>

datatype 'f file_read = Undecodable | InvalidJson | Unreadable error | Parsed "'f json"

text \<open>What the converter prints, and its state: the files of \<^verbatim>\<open>save_dir\<close> by name
  (\<^verbatim>\<open>os.makedirs\<close> has made the directory; a write to it succeeds) and the output so
  far.\<close>

datatype message =
    SkippingEncoding string
  | SkippingInvalidJson string
  | ErrorProcessing string error
  | LoadedClasses nat
  | ConversionCompleted

record conv_state =
  txt_files :: "string \<rightharpoonup> string"
  printed :: "message list"

definition say :: "message \<Rightarrow> conv_state \<Rightarrow> conv_state" where
  "say m st = st\<lparr>printed := printed st @ [m]\<rparr>"

text \<open>One round of the loop over the directory, and the loop.\<close>

definition convert_file ::
  "'f arith \<Rightarrow> string \<Rightarrow> string list \<Rightarrow> string \<Rightarrow> string \<times> 'f file_read \<Rightarrow> conv_state \<Rightarrow> conv_state" where
  "convert_file P json_dir classes format entry st =
     (let json_fname = fst entry in
      if \<not> py_endswith (py_lower json_fname) ''.json'' then st
      else
        let json_path = os_path_join json_dir json_fname in
        case snd entry of
          Undecodable \<Rightarrow> say (SkippingEncoding json_path) st
        | InvalidJson \<Rightarrow> say (SkippingInvalidJson json_path) st
        | Unreadable e \<Rightarrow> say (ErrorProcessing json_path e) st
        | Parsed data \<Rightarrow>
            (case file_lines P classes format data of
               Inl e \<Rightarrow> say (ErrorProcessing json_path e) st
             | Inr txt_content \<Rightarrow>
                 st\<lparr>txt_files := (txt_files st)
                        (fst (splitext json_fname) @ ''.txt'' \<mapsto> concat txt_content)\<rparr>))"

definition convert_json_to_txt ::
  "'f arith \<Rightarrow> string \<Rightarrow> (string \<times> 'f file_read) list \<Rightarrow> string list \<Rightarrow> string \<Rightarrow> conv_state
     \<Rightarrow> conv_state" where
  "convert_json_to_txt P json_dir listing classes format st =
     fold (convert_file P json_dir classes format) listing st"

subsection \<open>\<^verbatim>\<open>main\<close>\<close>

text \<open>
  The body of the function \<^verbatim>\<open>main\<close>, from the namespace that \<^verbatim>\<open>parse_args\<close> returns.
  A result \<open>Inl\<close> is an exception that leaves the function; it can only arise before
  the conversion starts, so it carries no state. This is what a call of \<^verbatim>\<open>main()\<close>
  does, not what running the file does: the file calls \<^verbatim>\<open>main\<close> in its last statement,
  after the definitions above it have been executed (see \<open>script\<close> below).
\<close>

record args =
  arg_json_dir :: string
  arg_save_dir :: string
  arg_classes_file :: "string option"
  arg_classes :: "string option"
  arg_format :: string

definition main ::
  "'f arith \<Rightarrow> (string \<Rightarrow> error + string list) \<Rightarrow> (string \<times> 'f file_read) list \<Rightarrow> args
     \<Rightarrow> conv_state \<Rightarrow> error + conv_state" where
  "main P read_lines listing a st =
     (if \<not> given (arg_classes_file a) \<and> \<not> given (arg_classes a) then Inl UsageError
      else
        bnd (load_classes read_lines (arg_classes_file a) (arg_classes a)) (\<lambda>classes_list.
          Inr (say ConversionCompleted
                 (convert_json_to_txt P (arg_json_dir a) listing classes_list (arg_format a)
                    (say (LoadedClasses (length classes_list)) st)))))"

subsection \<open>The top level of the file\<close>

text \<open>
  Running the file executes its top-level statements in order. An \<^verbatim>\<open>import\<close> binds
  names (the modules are taken to be installed). A \<^verbatim>\<open>def\<close> evaluates the defaults and
  the annotations of its parameters when it is executed, then binds the function:
  \<open>Def f ns\<close> carries the names \<open>ns\<close> that those expressions look up, in the order of
  evaluation (this is the language before annotations became lazy, in Python 3.14,
  and without \<^verbatim>\<open>from __future__ import annotations\<close>, which the file does not have).
  \<open>RunMain f\<close> is the guarded call \<^verbatim>\<open>f()\<close> at the end of the file, the only place where
  arguments are parsed, classes loaded and files read.
\<close>

datatype stmt =
    Import string
  | FromImport string "string list"
  | Def string "string list"
  | RunMain string

record module_state =
  bound :: "string list"
  main_ran :: bool

text \<open>Names of the \<^verbatim>\<open>builtins\<close> module: the types and functions the two programs
  could name. \<^verbatim>\<open>List\<close> is a name of \<^verbatim>\<open>typing\<close>, not a builtin.\<close>

definition builtins :: "string list" where
  "builtins = [''str'', ''int'', ''float'', ''bool'', ''list'', ''dict'', ''tuple'', ''set'',
               ''len'', ''print'', ''open'', ''range'', ''object'', ''type'', ''Exception'',
               ''ValueError'', ''UnicodeDecodeError'', ''__name__'']"

fun first_unbound :: "string list \<Rightarrow> string list \<Rightarrow> string option" where
  "first_unbound env [] = None"
| "first_unbound env (n # ns) = (if n \<in> set env then first_unbound env ns else Some n)"

fun exec_stmt :: "stmt \<Rightarrow> module_state \<Rightarrow> error + module_state" where
  "exec_stmt (Import m) st = Inr (st\<lparr>bound := m # bound st\<rparr>)"
| "exec_stmt (FromImport m ns) st = Inr (st\<lparr>bound := ns @ bound st\<rparr>)"
| "exec_stmt (Def f ns) st =
     (case first_unbound (bound st @ builtins) ns of
        Some n \<Rightarrow> Inl (NameError n)
      | None \<Rightarrow> Inr (st\<lparr>bound := f # bound st\<rparr>))"
| "exec_stmt (RunMain f) st =
     (if f \<in> set (bound st) then Inr (st\<lparr>main_ran := True\<rparr>) else Inl (NameError f))"

text \<open>The run stops at the first exception, in the state reached so far.\<close>

fun exec_module :: "stmt list \<Rightarrow> module_state \<Rightarrow> error option \<times> module_state" where
  "exec_module [] st = (None, st)"
| "exec_module (s # ss) st =
     (case exec_stmt s st of Inl e \<Rightarrow> (Some e, st) | Inr st' \<Rightarrow> exec_module ss st')"

text \<open>
  The file: four imports, \<^verbatim>\<open>load_classes\<close> (defaults \<^verbatim>\<open>None\<close>, no annotation),
  \<^verbatim>\<open>convert_json_to_txt(json_dir: str, save_dir: str, classes: List[str], format: str =
  "yolo") -> None\<close>, \<^verbatim>\<open>main\<close>, and the guarded call of \<^verbatim>\<open>main\<close>.
\<close>

definition json2txt_converter :: "stmt list" where
  "json2txt_converter =
     [Import ''os'', Import ''json'', Import ''argparse'', FromImport ''tqdm'' [''tqdm''],
      Def ''load_classes'' [],
      Def ''convert_json_to_txt'' [''str'', ''str'', ''List'', ''str'', ''str''],
      Def ''main'' [],
      RunMain ''main'']"

definition fresh_module :: module_state where
  "fresh_module = \<lparr>bound = [], main_ran = False\<rparr>"

text \<open>
  A run of the program, \<^verbatim>\<open>python json2txt_converter.py\<close> with the arguments \<open>a\<close>: the
  top-level statements are executed, and the body of \<^verbatim>\<open>main\<close> runs only if the
  execution reaches the call. An exception of either ends the run.
\<close>

definition script ::
  "'f arith \<Rightarrow> (string \<Rightarrow> error + string list) \<Rightarrow> (string \<times> 'f file_read) list \<Rightarrow> args
     \<Rightarrow> conv_state \<Rightarrow> error + conv_state" where
  "script P read_lines listing a st =
     (case exec_module json2txt_converter fresh_module of
        (Some e, m) \<Rightarrow> Inl e
      | (None, m) \<Rightarrow> if main_ran m then main P read_lines listing a st else Inr st)"

subsection \<open>Decimal arithmetic\<close>

text \<open>
  An instance of the arithmetic primitives, used only to evaluate the concrete
  scenarios: the numbers are rationals, the quotient is exact and \<open>fixed_str d\<close>
  writes a rational with \<open>d\<close> decimals, rounding halves to even. This is not binary
  floating point: it has no negative zero, never overflows, is exact beyond 53 bits
  and rounds the decimal ties that a double cannot hold. It gives what Python gives
  at the inputs of the scenarios below, 50 / 100, 100 / 200, 50 and 100, where every
  number is a double and no rounding takes place. The general theorems do not use
  it: they hold for every instance of \<open>'f arith\<close>.
\<close>

fun num_val :: "rat num \<Rightarrow> rat" where
  "num_val (I n) = of_int n"
| "num_val (F q) = q"

definition round_half_even :: "rat \<Rightarrow> int" where
  "round_half_even q =
     (let f = \<lfloor>q\<rfloor>; r = q - of_int f
      in if r < 1 / 2 then f else if 1 / 2 < r then f + 1 else if even f then f else f + 1)"

definition zero_pad :: "nat \<Rightarrow> string \<Rightarrow> string" where
  "zero_pad d s = replicate (d - length s) CHR ''0'' @ s"

definition fixed_str :: "nat \<Rightarrow> rat \<Rightarrow> string" where
  "fixed_str d q =
     (let n = nat (round_half_even (\<bar>q\<bar> * 10 ^ d))
      in (if q < 0 then ''-'' else []) @ str_nat (n div 10 ^ d) @
         (if d = 0 then [] else ''.'' @ zero_pad d (str_nat (n mod 10 ^ d))))"

definition decimal_arith :: "rat arith" where
  "decimal_arith =
     \<lparr>fzero = (\<lambda>q. q = 0),
      truediv = (\<lambda>x y. Some (num_val x / num_val y)),
      fmt = (\<lambda>d x. Some (fixed_str d (num_val x)))\<rparr>"

section \<open>Inputs of the concrete scenarios\<close>

definition cat_dog :: "string list" where
  "cat_dog = [''cat'', ''dog'']"

definition bird_shape :: "(string \<times> rat json) list" where
  "bird_shape = [(''label'', JStr ''bird''), (''points'', JArr [JArr [JInt 1, JInt 2]])]"

definition bird_doc :: "(string \<times> rat json) list" where
  "bird_doc = [(''imageHeight'', JInt 200), (''imageWidth'', JInt 100),
               (''shapes'', JArr [JObj bird_shape])]"

definition no_output :: conv_state where
  "no_output = \<lparr>txt_files = Map.empty, printed = []\<rparr>"

definition classes_txt :: "string \<Rightarrow> error + string list" where
  "classes_txt path = Inr [''cat'' @ [CHR 10]]"

definition has_dimension :: "'f arith \<Rightarrow> (string \<times> 'f json) list \<Rightarrow> string \<Rightarrow> bool" where
  "has_dimension P kvs k = (case map_of kvs k of None \<Rightarrow> False | Some v \<Rightarrow> truthy P v)"

definition flat_doc :: "(string \<times> rat json) list" where
  "flat_doc = [(''imageHeight'', JInt 200), (''imageWidth'', JInt 0),
               (''shapes'', JArr [JObj bird_shape])]"

text \<open>
  The shapes of the data model, for stating what a line holds: a point is a pair
  of numbers, \<open>scaled P x w\<close> is \<open>x / w\<close> written with 6 decimals, and the numbers of
  a line are the two strings of each point, in order.
\<close>

fun num_json :: "'f num \<Rightarrow> 'f json" where
  "num_json (I n) = JInt n"
| "num_json (F x) = JFloat x"

definition point_json :: "'f num \<times> 'f num \<Rightarrow> 'f json" where
  "point_json xy = JArr [num_json (fst xy), num_json (snd xy)]"

definition scaled :: "'f arith \<Rightarrow> 'f num \<Rightarrow> 'f num \<Rightarrow> string option" where
  "scaled P x w = (case truediv P x w of None \<Rightarrow> None | Some q \<Rightarrow> fmt P 6 (F q))"

definition flat_coords :: "(string \<times> string) list \<Rightarrow> string list" where
  "flat_coords strs = concat (map (\<lambda>s. [fst s, snd s]) strs)"

definition dog_shape :: "(string \<times> rat json) list" where
  "dog_shape = [(''label'', JStr ''dog''), (''points'', JArr [JArr [JInt 50, JInt 100]])]"

definition dog_doc :: "(string \<times> rat json) list" where
  "dog_doc = [(''imageHeight'', JInt 200), (''imageWidth'', JInt 100),
              (''shapes'', JArr [JObj dog_shape])]"

text \<open>The name under which the lines of an annotation file are written, and the
  test that makes the loop look at a file.\<close>

definition txt_name :: "string \<times> 'f file_read \<Rightarrow> string" where
  "txt_name entry = fst (splitext (fst entry)) @ ''.txt''"

definition is_json_entry :: "string \<times> 'f file_read \<Rightarrow> bool" where
  "is_json_entry entry = py_endswith (py_lower (fst entry)) ''.json''"

definition bird_no_points :: "(string \<times> rat json) list" where
  "bird_no_points = [(''label'', JStr ''bird''), (''points'', JArr [])]"

definition bird_no_points_doc :: "(string \<times> rat json) list" where
  "bird_no_points_doc = [(''imageHeight'', JInt 200), (''imageWidth'', JInt 100),
                         (''shapes'', JArr [JObj bird_no_points])]"

definition cat_no_points :: "(string \<times> rat json) list" where
  "cat_no_points = [(''label'', JStr ''cat''), (''points'', JArr [])]"

definition cat_dog_doc :: "(string \<times> rat json) list" where
  "cat_dog_doc = [(''imageHeight'', JInt 200), (''imageWidth'', JInt 100),
                  (''shapes'', JArr [JObj cat_no_points, JObj dog_shape])]"

text \<open>The label of a shape does not stop the conversion: it is missing, falsy, or a
  class name.\<close>

definition label_passes :: "'f arith \<Rightarrow> string list \<Rightarrow> (string \<times> 'f json) list \<Rightarrow> bool" where
  "label_passes P classes kvs =
     (case map_of kvs ''label'' of None \<Rightarrow> True | Some l \<Rightarrow> \<not> truthy P l \<or> py_in l classes)"

section \<open>The enhancer: \<^verbatim>\<open>image_enhancement.py\<close>\<close>

text \<open>
  The imaging library, taken as parameters over a type \<open>'i\<close> of images and a type
  \<open>'v\<close> of the numbers of a configuration: the four enhancers
  (\<^verbatim>\<open>ImageEnhance.X(img).enhance(v)\<close>), the Gaussian blur, the test \<^verbatim>\<open>v > 0\<close>, the mode
  of an image, its conversion to RGB, the EXIF bytes of its \<^verbatim>\<open>info\<close>, and whether
  \<^verbatim>\<open>save\<close> into a directory under a file name with those bytes raises. With them
  comes the one primitive of the file system that can fail after the directories
  are made: whether writing an annotation into a directory under a file name
  raises. Images are values: the copy that \<^verbatim>\<open>apply_enhancement\<close> starts from is the
  image itself.
\<close>

record ('i, 'v) pil =
  enhance_brightness :: "'v \<Rightarrow> 'i \<Rightarrow> error + 'i"
  enhance_contrast :: "'v \<Rightarrow> 'i \<Rightarrow> error + 'i"
  enhance_sharpness :: "'v \<Rightarrow> 'i \<Rightarrow> error + 'i"
  enhance_color :: "'v \<Rightarrow> 'i \<Rightarrow> error + 'i"
  gaussian_blur :: "'v \<Rightarrow> 'i \<Rightarrow> error + 'i"
  positive :: "'v \<Rightarrow> bool"
  mode :: "'i \<Rightarrow> string"
  convert_rgb :: "'i \<Rightarrow> error + 'i"
  exif_of :: "'i \<Rightarrow> string option"
  save_error :: "'i \<Rightarrow> string \<Rightarrow> string \<Rightarrow> string option \<Rightarrow> error option"
  write_error :: "string \<Rightarrow> string \<Rightarrow> error option"

subsection \<open>\<^verbatim>\<open>apply_enhancement\<close>\<close>

definition apply_enhancement :: "('i, 'v) pil \<Rightarrow> 'i \<Rightarrow> (string \<rightharpoonup> 'v) \<Rightarrow> error + 'i" where
  "apply_enhancement L image0 enhance_params =
     bnd (Inr image0) (\<lambda>enhanced_img.
     bnd (case enhance_params ''brightness'' of
            None \<Rightarrow> Inr enhanced_img
          | Some v \<Rightarrow> enhance_brightness L v enhanced_img) (\<lambda>enhanced_img.
     bnd (case enhance_params ''contrast'' of
            None \<Rightarrow> Inr enhanced_img
          | Some v \<Rightarrow> enhance_contrast L v enhanced_img) (\<lambda>enhanced_img.
     bnd (case enhance_params ''sharpness'' of
            None \<Rightarrow> Inr enhanced_img
          | Some v \<Rightarrow> enhance_sharpness L v enhanced_img) (\<lambda>enhanced_img.
     bnd (case enhance_params ''color'' of
            None \<Rightarrow> Inr enhanced_img
          | Some v \<Rightarrow> enhance_color L v enhanced_img) (\<lambda>enhanced_img.
     bnd (case enhance_params ''blur_radius'' of
            None \<Rightarrow> Inr enhanced_img
          | Some r \<Rightarrow> if positive L r then gaussian_blur L r enhanced_img else Inr enhanced_img)
       Inr)))))"

text \<open>
  The pipeline as the specification words it: the five transforms in their fixed
  order, each kept when its key is in the parameters (the blur only with a positive
  radius), each run on the result of the one before.
\<close>

definition transforms :: "('i, 'v) pil \<Rightarrow> (string \<times> ('v \<Rightarrow> 'i \<Rightarrow> error + 'i)) list" where
  "transforms L =
     [(''brightness'', enhance_brightness L), (''contrast'', enhance_contrast L),
      (''sharpness'', enhance_sharpness L), (''color'', enhance_color L),
      (''blur_radius'', gaussian_blur L)]"

definition selected_steps :: "('i, 'v) pil \<Rightarrow> (string \<rightharpoonup> 'v) \<Rightarrow> ('i \<Rightarrow> error + 'i) list" where
  "selected_steps L params =
     concat (map (\<lambda>kt. case params (fst kt) of
                          None \<Rightarrow> []
                        | Some v \<Rightarrow>
                            if fst kt = ''blur_radius'' \<and> \<not> positive L v then []
                            else [snd kt v])
               (transforms L))"

fun run_steps :: "('i \<Rightarrow> error + 'i) list \<Rightarrow> 'i \<Rightarrow> error + 'i" where
  "run_steps [] img = Inr img"
| "run_steps (t # ts) img = bnd (t img) (run_steps ts)"

subsection \<open>\<^verbatim>\<open>process_dataset\<close>\<close>

text \<open>
  The configuration is the list \<^verbatim>\<open>config['enhancements']\<close>, each entry with its alias
  and its parameters, as the data model types it. The image directory is the list of
  \<^verbatim>\<open>os.listdir\<close>, each name with what \<^verbatim>\<open>Image.open\<close> makes of the file; the annotation
  directory maps a file name to its reading. The output is kept by directory name
  under \<^verbatim>\<open>output_root\<close> and file name. The input directories are not under
  \<^verbatim>\<open>output_root\<close>, \<^verbatim>\<open>os.makedirs\<close> and \<^verbatim>\<open>os.listdir\<close> have succeeded, and an alias is a
  plain name without a path separator, so that two directory names or two file
  names are the same file exactly when they are equal.
\<close>

record 'v enhancement =
  alias_name :: string
  parameters :: "string \<rightharpoonup> 'v"

datatype enh_message =
    SkippingUnannotated string
  | FailedAnnotation string error
  | Processed string nat
  | FailedImage string error

record ('i, 'f) enh_state =
  out_dirs :: "string list"
  out_images :: "string \<times> string \<rightharpoonup> 'i \<times> string option"
  out_annotations :: "string \<times> string \<rightharpoonup> 'f json"
  enh_printed :: "enh_message list"

definition enh_say :: "enh_message \<Rightarrow> ('i, 'f) enh_state \<Rightarrow> ('i, 'f) enh_state" where
  "enh_say m st = st\<lparr>enh_printed := enh_printed st @ [m]\<rparr>"

definition make_dirs :: "'v enhancement list \<Rightarrow> ('i, 'f) enh_state \<Rightarrow> ('i, 'f) enh_state" where
  "make_dirs enhancements st =
     fold (\<lambda>e s. s\<lparr>out_dirs := out_dirs s @ [''images_'' @ alias_name e, ''annotations_'' @ alias_name e]\<rparr>)
       enhancements st"

definition image_extensions :: "string list" where
  "image_extensions = [''.png'', ''.jpg'', ''.jpeg'', ''.bmp'', ''.tiff'']"

definition is_image_file :: "string \<Rightarrow> bool" where
  "is_image_file img_file = list_ex (py_endswith (py_lower img_file)) image_extensions"

definition new_img_name :: "string \<Rightarrow> string \<Rightarrow> string \<Rightarrow> string" where
  "new_img_name base_name a ext = base_name @ ''_'' @ a @ ext"

definition new_ann_name :: "string \<Rightarrow> string \<Rightarrow> string" where
  "new_ann_name base_name a = base_name @ ''_'' @ a @ ''.json''"

text \<open>\<^verbatim>\<open>d[key] = value\<close>: a dict updates the key in place or appends it; every other
  JSON value refuses a string subscript.\<close>

fun py_setitem :: "'f json \<Rightarrow> string \<Rightarrow> 'f json \<Rightarrow> error + 'f json" where
  "py_setitem (JObj kvs) k v = Inr (JObj (AList.update k v kvs))"
| "py_setitem _ k v = Inl TypeError"

definition read_annotation :: "(string \<rightharpoonup> 'f file_read) \<Rightarrow> string \<Rightarrow> error + 'f json" where
  "read_annotation ann_files name =
     (case ann_files name of
        None \<Rightarrow> Inl OSError
      | Some Undecodable \<Rightarrow> Inl UnicodeDecodeError
      | Some InvalidJson \<Rightarrow> Inl JSONDecodeError
      | Some (Unreadable e) \<Rightarrow> Inl e
      | Some (Parsed ann_data) \<Rightarrow> Inr ann_data)"

text \<open>The inner \<^verbatim>\<open>try\<close>: the annotation is read again, its \<^verbatim>\<open>imagePath\<close> set, and the
  document written; any exception is printed and the loop goes on.\<close>

definition sync_annotation ::
  "('i, 'v) pil \<Rightarrow> (string \<rightharpoonup> 'f file_read) \<Rightarrow> string \<Rightarrow> string \<Rightarrow> string \<Rightarrow> string
     \<Rightarrow> ('i, 'f) enh_state \<Rightarrow> ('i, 'f) enh_state" where
  "sync_annotation L ann_files annotation_dir base_name a img_name st =
     (case bnd (read_annotation ann_files (base_name @ ''.json'')) (\<lambda>ann_data.
           bnd (py_setitem ann_data ''imagePath'' (JStr img_name)) (\<lambda>ann_data.
           case write_error L (''annotations_'' @ a) (new_ann_name base_name a) of
             Some e \<Rightarrow> Inl e
           | None \<Rightarrow> Inr ann_data)) of
        Inl e \<Rightarrow>
          enh_say (FailedAnnotation (os_path_join annotation_dir (base_name @ ''.json'')) e) st
      | Inr ann_data \<Rightarrow>
          st\<lparr>out_annotations := (out_annotations st)
                ((''annotations_'' @ a, new_ann_name base_name a) \<mapsto> ann_data)\<rparr>)"

text \<open>The loop over the enhancements for one image. An exception of the enhancement
  or of \<^verbatim>\<open>save\<close> leaves the loop; what was written before stays.\<close>

fun enhance_all ::
  "('i, 'v) pil \<Rightarrow> (string \<rightharpoonup> 'f file_read) \<Rightarrow> string \<Rightarrow> string \<Rightarrow> string \<Rightarrow> 'i \<Rightarrow> string option
     \<Rightarrow> 'v enhancement list \<Rightarrow> ('i, 'f) enh_state \<Rightarrow> error option \<times> ('i, 'f) enh_state" where
  "enhance_all L ann_files annotation_dir base_name ext img exif [] st = (None, st)"
| "enhance_all L ann_files annotation_dir base_name ext img exif (e # es) st =
     (case apply_enhancement L img (parameters e) of
        Inl err \<Rightarrow> (Some err, st)
      | Inr enhanced_img \<Rightarrow>
          (case save_error L enhanced_img (''images_'' @ alias_name e)
                  (new_img_name base_name (alias_name e) ext) exif of
             Some err \<Rightarrow> (Some err, st)
           | None \<Rightarrow>
               enhance_all L ann_files annotation_dir base_name ext img exif es
                 (sync_annotation L ann_files annotation_dir base_name (alias_name e)
                    (new_img_name base_name (alias_name e) ext)
                    (st\<lparr>out_images := (out_images st)
                          ((''images_'' @ alias_name e, new_img_name base_name (alias_name e) ext) \<mapsto>
                             (enhanced_img, exif))\<rparr>))))"

text \<open>The head of the outer \<^verbatim>\<open>try\<close>: the image is opened, its EXIF bytes are kept and
  it is converted unless its mode is RGB.\<close>

definition open_image :: "('i, 'v) pil \<Rightarrow> error + 'i \<Rightarrow> error + string option \<times> 'i" where
  "open_image L opened =
     bnd opened (\<lambda>img.
       if mode L img \<noteq> ''RGB''
       then bnd (convert_rgb L img) (\<lambda>rgb. Inr (exif_of L img, rgb))
       else Inr (exif_of L img, img))"

text \<open>One round of the loop over the image directory, and the whole function.\<close>

definition process_image ::
  "('i, 'v) pil \<Rightarrow> (string \<rightharpoonup> 'f file_read) \<Rightarrow> string \<Rightarrow> 'v enhancement list
     \<Rightarrow> string \<times> (error + 'i) \<Rightarrow> ('i, 'f) enh_state \<Rightarrow> ('i, 'f) enh_state" where
  "process_image L ann_files annotation_dir enhancements entry st =
     (let img_file = fst entry in
      if \<not> is_image_file img_file then st
      else
        let base_name = fst (splitext img_file);
            ext = snd (splitext img_file)
        in if ann_files (base_name @ ''.json'') = None
           then enh_say (SkippingUnannotated img_file) st
           else
             case open_image L (snd entry) of
               Inl e \<Rightarrow> enh_say (FailedImage img_file e) st
             | Inr opened \<Rightarrow>
                 (case enhance_all L ann_files annotation_dir base_name ext (snd opened)
                         (fst opened) enhancements st of
                    (Some e, st') \<Rightarrow> enh_say (FailedImage img_file e) st'
                  | (None, st') \<Rightarrow> enh_say (Processed img_file (length enhancements)) st'))"

definition process_dataset ::
  "('i, 'v) pil \<Rightarrow> (string \<times> (error + 'i)) list \<Rightarrow> (string \<rightharpoonup> 'f file_read) \<Rightarrow> string
     \<Rightarrow> 'v enhancement list \<Rightarrow> ('i, 'f) enh_state \<Rightarrow> ('i, 'f) enh_state" where
  "process_dataset L image_dir ann_files annotation_dir enhancements st =
     fold (process_image L ann_files annotation_dir enhancements) image_dir
       (make_dirs enhancements st)"

text \<open>
  An instance of the imaging library for the concrete scenarios: an image is the
  string of the transforms applied to it, one letter each, every image is RGB and
  without EXIF bytes, and nothing fails.
\<close>

definition tag_pil :: "(string, int) pil" where
  "tag_pil =
     \<lparr>enhance_brightness = (\<lambda>v img. Inr (img @ ''B'')),
      enhance_contrast = (\<lambda>v img. Inr (img @ ''C'')),
      enhance_sharpness = (\<lambda>v img. Inr (img @ ''S'')),
      enhance_color = (\<lambda>v img. Inr (img @ ''K'')),
      gaussian_blur = (\<lambda>v img. Inr (img @ ''G'')),
      positive = (\<lambda>v. 0 < v),
      mode = (\<lambda>img. ''RGB''),
      convert_rgb = Inr,
      exif_of = (\<lambda>img. None),
      save_error = (\<lambda>img d n exif. None),
      write_error = (\<lambda>d n. None)\<rparr>"

text \<open>
  What the specification says of a written annotation: it is a document whose
  \<^verbatim>\<open>imagePath\<close> is the new name and whose other fields are those of the original, in
  their order and with their values. \<open>annotation_for\<close> says it of the file written
  for an image and an enhancement: the original is the annotation of the image's
  base name, the file is \<^verbatim>\<open>{base}_{alias}.json\<close> in the directory of the alias.
\<close>

definition only_image_path_replaced :: "(string \<times> 'f json) list \<Rightarrow> string \<Rightarrow> 'f json \<Rightarrow> bool" where
  "only_image_path_replaced kvs name doc =
     (case doc of
        JObj kvs' \<Rightarrow>
          map_of kvs' ''imagePath'' = Some (JStr name) \<and>
          filter (\<lambda>kv. fst kv \<noteq> ''imagePath'') kvs' = filter (\<lambda>kv. fst kv \<noteq> ''imagePath'') kvs
      | _ \<Rightarrow> False)"

definition annotation_for ::
  "(string \<rightharpoonup> 'f file_read) \<Rightarrow> string \<Rightarrow> string \<Rightarrow> 'v enhancement \<Rightarrow> string \<times> string \<Rightarrow> 'f json
     \<Rightarrow> bool" where
  "annotation_for ann_files base_name ext e key doc =
     (case ann_files (base_name @ ''.json'') of
        Some (Parsed (JObj kvs)) \<Rightarrow>
          key = (''annotations_'' @ alias_name e, new_ann_name base_name (alias_name e)) \<and>
          only_image_path_replaced kvs (new_img_name base_name (alias_name e) ext) doc
      | _ \<Rightarrow> False)"

text \<open>A data set of one image with its annotation, one enhancement, and an empty
  output.\<close>

definition one_image :: "(string \<times> (error + string)) list" where
  "one_image = [(''a.png'', Inr ''i'')]"

definition a_annotation :: "(string \<times> rat json) list" where
  "a_annotation = [(''version'', JStr ''5.0''), (''imagePath'', JStr ''a.png''),
                   (''imageHeight'', JInt 200), (''shapes'', JArr [])]"

definition one_annotation :: "string \<rightharpoonup> rat file_read" where
  "one_annotation = [''a.json'' \<mapsto> Parsed (JObj a_annotation)]"

definition brighter :: "int enhancement" where
  "brighter = \<lparr>alias_name = ''x'', parameters = [''brightness'' \<mapsto> 2]\<rparr>"

definition empty_output :: "(string, rat) enh_state" where
  "empty_output =
     \<lparr>out_dirs = [], out_images = Map.empty, out_annotations = Map.empty, enh_printed = []\<rparr>"

text \<open>
  What the specification says of a whole run. The images of the data set are the
  entries of the directory that the loop looks at. An image is processed without
  failure when its annotation is a JSON object, the image opens (and converts),
  and every enhancement applies, saves and writes its annotation without an
  exception. The files expected from a list of images and a list of aliases are
  \<^verbatim>\<open>{base}_{alias}{ext}\<close> and \<^verbatim>\<open>{base}_{alias}.json\<close> in the directories of the alias, for
  each image and each alias in turn.
\<close>

definition image_entries :: "(string \<times> 'a) list \<Rightarrow> (string \<times> 'a) list" where
  "image_entries image_dir = filter (\<lambda>entry. is_image_file (fst entry)) image_dir"

definition version_succeeds ::
  "('i, 'v) pil \<Rightarrow> string \<Rightarrow> string \<Rightarrow> 'i \<Rightarrow> string option \<Rightarrow> 'v enhancement \<Rightarrow> bool" where
  "version_succeeds L base_name ext img exif e =
     (case apply_enhancement L img (parameters e) of
        Inl err \<Rightarrow> False
      | Inr enhanced_img \<Rightarrow>
          save_error L enhanced_img (''images_'' @ alias_name e)
            (new_img_name base_name (alias_name e) ext) exif = None \<and>
          write_error L (''annotations_'' @ alias_name e)
            (new_ann_name base_name (alias_name e)) = None)"

definition item_succeeds ::
  "('i, 'v) pil \<Rightarrow> (string \<rightharpoonup> 'f file_read) \<Rightarrow> 'v enhancement list \<Rightarrow> string \<times> (error + 'i)
     \<Rightarrow> bool" where
  "item_succeeds L ann_files enhancements entry =
     (case ann_files (fst (splitext (fst entry)) @ ''.json'') of
        Some (Parsed (JObj kvs)) \<Rightarrow>
          (case open_image L (snd entry) of
             Inl e \<Rightarrow> False
           | Inr opened \<Rightarrow>
               list_all (version_succeeds L (fst (splitext (fst entry)))
                           (snd (splitext (fst entry))) (snd opened) (fst opened))
                 enhancements)
      | _ \<Rightarrow> False)"

definition image_keys :: "(string \<times> 'a) list \<Rightarrow> string list \<Rightarrow> (string \<times> string) list" where
  "image_keys images aliases =
     concat (map (\<lambda>entry. map (\<lambda>a. (''images_'' @ a,
                                      new_img_name (fst (splitext (fst entry))) a
                                        (snd (splitext (fst entry)))))
                            aliases)
               images)"

definition annotation_keys :: "(string \<times> 'a) list \<Rightarrow> string list \<Rightarrow> (string \<times> string) list" where
  "annotation_keys images aliases =
     concat (map (\<lambda>entry. map (\<lambda>a. (''annotations_'' @ a,
                                      new_ann_name (fst (splitext (fst entry))) a))
                            aliases)
               images)"

text \<open>The annotation of a base name with its \<^verbatim>\<open>imagePath\<close> set, and the annotations
  written by a run without failure, in the order of the writes.\<close>

definition rewritten :: "(string \<rightharpoonup> 'f file_read) \<Rightarrow> string \<Rightarrow> string \<Rightarrow> 'f json" where
  "rewritten ann_files base_name img_name =
     (case ann_files (base_name @ ''.json'') of
        Some (Parsed (JObj kvs)) \<Rightarrow> JObj (AList.update ''imagePath'' (JStr img_name) kvs)
      | _ \<Rightarrow> JNull)"

definition annotation_writes ::
  "(string \<rightharpoonup> 'f file_read) \<Rightarrow> (string \<times> 'a) list \<Rightarrow> string list
     \<Rightarrow> ((string \<times> string) \<times> 'f json) list" where
  "annotation_writes ann_files images aliases =
     concat (map (\<lambda>entry. map (\<lambda>a. ((''annotations_'' @ a,
                                       new_ann_name (fst (splitext (fst entry))) a),
                                      rewritten ann_files (fst (splitext (fst entry)))
                                        (new_img_name (fst (splitext (fst entry))) a
                                           (snd (splitext (fst entry))))))
                            aliases)
               images)"

text \<open>Two images with the same base name and one annotation; two images with
  their annotations and two enhancements.\<close>

definition same_base_images :: "(string \<times> (error + string)) list" where
  "same_base_images = [(''a.png'', Inr ''i''), (''a.jpg'', Inr ''j'')]"

definition two_images :: "(string \<times> (error + string)) list" where
  "two_images = [(''a.png'', Inr ''i''), (''b.jpg'', Inr ''j'')]"

definition two_annotations :: "string \<rightharpoonup> rat file_read" where
  "two_annotations = [''a.json'' \<mapsto> Parsed (JObj a_annotation),
                      ''b.json'' \<mapsto> Parsed (JObj [(''shapes'', JArr [])])]"

definition softer :: "int enhancement" where
  "softer = \<lparr>alias_name = ''y'', parameters = [''blur_radius'' \<mapsto> 2]\<rparr>"

section \<open>Properties of the converter\<close>


lemma bnd_Inl [simp]: "bnd (Inl e) k = Inl e"
  by (simp add: bnd_def)

lemma bnd_Inr [simp]: "bnd (Inr x) k = k x"
  by (simp add: bnd_def)

lemma bnd_eq_Inr: "bnd m k = Inr y \<longleftrightarrow> (\<exists>x. m = Inr x \<and> k x = Inr y)"
  by (cases m) simp_all

lemma bnd_eq_Inl: "bnd m k = Inl e \<longleftrightarrow> m = Inl e \<or> (\<exists>x. m = Inr x \<and> k x = Inl e)"
  by (cases m) simp_all

lemma as_num_num_json [simp]: "as_num (num_json x) = Some x"
  by (cases x) simp_all

lemma voc_point_pair:
  assumes "fmt P 1 x = Some sx" "fmt P 1 y = Some sy"
  shows "voc_point P (point_json (x, y)) = Inr (sx @ '' '' @ sy)"
  using assms by (simp add: voc_point_def point_json_def py_format_def overflow_def)

lemma fixed_50_100:
  "fmt decimal_arith 1 (I 50) = Some ''50.0''"
  "fmt decimal_arith 1 (I 100) = Some ''100.0''"
proof -
  have a: "nat (round_half_even (\<bar>50\<bar> * 10 ^ 1)) = 500"
    "nat (round_half_even (\<bar>100\<bar> * 10 ^ 1)) = 1000"
    by (simp_all add: round_half_even_def Let_def)
  have b: "str_nat 0 = ''0''" "str_nat 50 = ''50''" "str_nat 100 = ''100''"
    by (simp_all add: str_nat.simps)
  have "fixed_str 1 50 = ''50.0''" "fixed_str 1 100 = ''100.0''"
    unfolding fixed_str_def Let_def a by (simp_all add: b zero_pad_def)
  then show "fmt decimal_arith 1 (I 50) = Some ''50.0''"
    "fmt decimal_arith 1 (I 100) = Some ''100.0''"
    by (simp_all add: decimal_arith_def)
qed

lemma shapes_loop_append:
  "shapes_loop P classes w h format (xs @ ys) acc =
     bnd (shapes_loop P classes w h format xs acc) (shapes_loop P classes w h format ys)"
  by (induction xs arbitrary: acc) (simp_all split: sum.splits option.splits)

lemma shapes_loop_fails:
  assumes "s \<in> set ss" and "shape_line P classes w h format s = Inl e"
  shows "\<exists>e'. shapes_loop P classes w h format ss acc = Inl e'"
  using assms
proof (induction ss arbitrary: acc)
  case Nil
  then show ?case by simp
next
  case (Cons a ss)
  show ?case
  proof (cases "shape_line P classes w h format a")
    case (Inl e0)
    then show ?thesis by simp
  next
    case (Inr r)
    with Cons.prems have "s \<in> set ss" by auto
    from Cons.IH[OF this Cons.prems(2)] Inr show ?thesis
      by (cases r) simp_all
  qed
qed

lemma shape_line_unknown:
  assumes "map_of kvs ''label'' = Some l" "truthy P l" "\<not> py_in l classes"
  shows "shape_line P classes w h format (JObj kvs) = Inl UnknownClass"
  using assms by (simp add: shape_line_def)

lemma file_lines_unknown:
  assumes "map_of dkvs ''shapes'' = Some (JArr ss)" "JObj kvs \<in> set ss"
    "map_of kvs ''label'' = Some l" "truthy P l" "\<not> py_in l classes"
  shows "\<exists>e. file_lines P classes format (JObj dkvs) = Inl e"
proof -
  from shapes_loop_fails[OF assms(2) shape_line_unknown[OF assms(3-5)]]
  show ?thesis using assms(1)
    by (auto simp: file_lines_def)
qed

lemma txt_files_say [simp]: "txt_files (say m st) = txt_files st"
  by (simp add: say_def)

lemma convert_file_txt_cong:
  "txt_files st = txt_files st' \<Longrightarrow>
   txt_files (convert_file P d classes format e st) = txt_files (convert_file P d classes format e st')"
  by (simp add: convert_file_def Let_def split: file_read.splits sum.splits)

lemma fold_convert_txt_cong:
  "txt_files st = txt_files st' \<Longrightarrow>
   txt_files (fold (convert_file P d classes format) es st) =
   txt_files (fold (convert_file P d classes format) es st')"
proof (induction es arbitrary: st st')
  case Nil
  then show ?case by simp
next
  case (Cons e es)
  show ?case using Cons.IH[OF convert_file_txt_cong[OF Cons.prems]] by simp
qed

lemma txt_name_eq: "a @ ''.txt'' = b @ ''.txt'' \<longleftrightarrow> a = b"
  by simp

lemma convert_file_other:
  assumes "is_json_entry entry \<longrightarrow> txt_name entry \<noteq> n"
  shows "txt_files (convert_file P json_dir classes format entry st) n = txt_files st n"
  using assms
  by (auto simp: convert_file_def Let_def is_json_entry_def txt_name_def
      split: file_read.splits sum.splits)

lemma fold_convert_other:
  assumes "\<forall>entry\<in>set es. is_json_entry entry \<longrightarrow> txt_name entry \<noteq> n"
  shows "txt_files (fold (convert_file P json_dir classes format) es st) n = txt_files st n"
  using assms
proof (induction es arbitrary: st)
  case Nil
  show ?case by simp
next
  case (Cons entry es)
  have "txt_files (fold (convert_file P json_dir classes format) es
          (convert_file P json_dir classes format entry st)) n =
        txt_files (convert_file P json_dir classes format entry st) n"
    using Cons.prems by (intro Cons.IH) simp
  also have "\<dots> = txt_files st n"
    using Cons.prems by (intro convert_file_other) simp
  finally show ?case by simp
qed

lemma convert_file_writes:
  assumes "is_json_entry (g, Parsed d)" "file_lines P classes format d = Inr txt_content"
  shows "txt_files (convert_file P json_dir classes format (g, Parsed d) st)
           (txt_name (g, Parsed d)) = Some (concat txt_content)"
  using assms by (simp add: convert_file_def is_json_entry_def txt_name_def)

lemma fold_convert_writes:
  assumes "(g, Parsed d) \<in> set es" "is_json_entry (g, Parsed d)"
    and "file_lines P classes format d = Inr txt_content"
    and "distinct (map txt_name (filter is_json_entry es))"
  shows "txt_files (fold (convert_file P json_dir classes format) es st)
           (txt_name (g, Parsed d)) = Some (concat txt_content)"
  using assms(1,4)
proof (induction es arbitrary: st)
  case Nil
  then show ?case by simp
next
  case (Cons entry es)
  show ?case
  proof (cases "entry = (g, Parsed d)")
    case True
    have "txt_name (g, Parsed d) \<notin> set (map txt_name (filter is_json_entry es))"
      using Cons.prems(2) assms(2) True by simp
    then have "\<forall>x\<in>set es. is_json_entry x \<longrightarrow> txt_name x \<noteq> txt_name (g, Parsed d)"
      by (auto simp: image_iff) metis
    then have "txt_files (fold (convert_file P json_dir classes format) es
            (convert_file P json_dir classes format (g, Parsed d) st)) (txt_name (g, Parsed d)) =
          txt_files (convert_file P json_dir classes format (g, Parsed d) st)
            (txt_name (g, Parsed d))"
      by (rule fold_convert_other)
    then show ?thesis
      using True convert_file_writes[OF assms(2,3)] by simp
  next
    case False
    then have "(g, Parsed d) \<in> set es"
      using Cons.prems(1) by simp
    moreover have "distinct (map txt_name (filter is_json_entry es))"
      using Cons.prems(2) by (simp split: if_splits)
    ultimately show ?thesis
      using Cons.IH by simp
  qed
qed

text \<open>
  Claim C2. An annotation file with a shape whose label is truthy and not in the
  class list fails as a whole: the \<^verbatim>\<open>try\<close> block raises, the round of the loop only
  prints the error for that path and writes nothing, and the files written by the
  whole run are those of the run without that file. The batch goes on: every other
  file of the directory that the loop looks at and whose \<^verbatim>\<open>try\<close> block ends with its
  lines has these lines under its output name at the end of the run (the output
  names of the other files being distinct, so that none overwrites another).
\<close>

theorem unknown_label_fails_file:
  assumes shapes: "map_of dkvs ''shapes'' = Some (JArr ss)"
    and shape: "JObj kvs \<in> set ss"
    and label: "map_of kvs ''label'' = Some l" "truthy P l" "\<not> py_in l classes"
    and name: "py_endswith (py_lower fname) ''.json''"
  shows "\<exists>e. file_lines P classes format (JObj dkvs) = Inl e \<and>
           convert_file P json_dir classes format (fname, Parsed (JObj dkvs)) st =
             say (ErrorProcessing (os_path_join json_dir fname) e) st \<and>
           txt_files (convert_json_to_txt P json_dir (before @ (fname, Parsed (JObj dkvs)) # after)
                        classes format st) =
           txt_files (convert_json_to_txt P json_dir (before @ after) classes format st) \<and>
           (\<forall>g d txt_content.
              (g, Parsed d) \<in> set (before @ after) \<and> is_json_entry (g, Parsed d) \<and>
              file_lines P classes format d = Inr txt_content \<and>
              distinct (map txt_name (filter is_json_entry (before @ after))) \<longrightarrow>
              txt_files (convert_json_to_txt P json_dir
                           (before @ (fname, Parsed (JObj dkvs)) # after) classes format st)
                (txt_name (g, Parsed d)) = Some (concat txt_content))"
proof -
  from file_lines_unknown[OF shapes shape label]
  obtain e where e: "file_lines P classes format (JObj dkvs) = Inl e" by blast
  have one: "convert_file P json_dir classes format (fname, Parsed (JObj dkvs)) s =
      say (ErrorProcessing (os_path_join json_dir fname) e) s" for s
    using name e by (simp add: convert_file_def)
  have "txt_files (fold (convert_file P json_dir classes format) after
          (say (ErrorProcessing (os_path_join json_dir fname) e)
             (fold (convert_file P json_dir classes format) before st))) =
        txt_files (fold (convert_file P json_dir classes format) after
          (fold (convert_file P json_dir classes format) before st))"
    by (rule fold_convert_txt_cong) simp
  then have same: "txt_files (convert_json_to_txt P json_dir
        (before @ (fname, Parsed (JObj dkvs)) # after) classes format st) =
      txt_files (convert_json_to_txt P json_dir (before @ after) classes format st)"
    using one by (simp add: convert_json_to_txt_def)
  have others: "txt_files (convert_json_to_txt P json_dir
        (before @ (fname, Parsed (JObj dkvs)) # after) classes format st)
        (txt_name (g, Parsed d)) = Some (concat txt_content)"
    if "(g, Parsed d) \<in> set (before @ after)" "is_json_entry (g, Parsed d)"
      "file_lines P classes format d = Inr txt_content"
      "distinct (map txt_name (filter is_json_entry (before @ after)))"
    for g d txt_content
  proof -
    have "txt_files (convert_json_to_txt P json_dir (before @ after) classes format st)
        (txt_name (g, Parsed d)) = Some (concat txt_content)"
      unfolding convert_json_to_txt_def by (rule fold_convert_writes[OF that])
    then show ?thesis
      by (simp only: same)
  qed
  from e one[of st] same others show ?thesis
    by blast
qed

lemma a_json_name: "py_endswith (py_lower ''a.json'') ''.json''"
  by code_simp

lemma b_json_entry: "is_json_entry (''b.json'', Parsed (JObj dog_doc))"
  unfolding is_json_entry_def fst_conv by code_simp

lemma b_txt_name: "txt_name (''b.json'', Parsed (JObj dog_doc)) = ''b.txt''"
  unfolding txt_name_def fst_conv by code_simp

lemma dog_doc_lines:
  "file_lines decimal_arith cat_dog ''voc'' (JObj dog_doc) = Inr [''dog 50.0 100.0'' @ [CHR 10]]"
proof -
  have "voc_point decimal_arith (point_json (I 50, I 100)) = Inr (''50.0'' @ '' '' @ ''100.0'')"
    by (rule voc_point_pair) (rule fixed_50_100)+
  then have "shape_line decimal_arith cat_dog (JInt 100) (JInt 200) ''voc'' (JObj dog_shape) =
      Inr (Some (''dog 50.0 100.0'' @ [CHR 10]))"
    by (simp add: shape_line_def dog_shape_def cat_dog_def point_json_def)
  then show ?thesis
    by (simp add: file_lines_def dog_doc_def)
qed

theorem unknown_label_fails_file_witness:
  "\<exists>e. file_lines decimal_arith cat_dog ''voc'' (JObj bird_doc) = Inl e \<and>
       convert_file decimal_arith ''in'' cat_dog ''voc'' (''a.json'', Parsed (JObj bird_doc)) no_output =
         say (ErrorProcessing (os_path_join ''in'' ''a.json'') e) no_output \<and>
       txt_files (convert_json_to_txt decimal_arith ''in''
                    ([] @ (''a.json'', Parsed (JObj bird_doc)) # [(''b.json'', Parsed (JObj dog_doc))])
                    cat_dog ''voc'' no_output) =
       txt_files (convert_json_to_txt decimal_arith ''in'' ([] @ [(''b.json'', Parsed (JObj dog_doc))])
                    cat_dog ''voc'' no_output) \<and>
       txt_files (convert_json_to_txt decimal_arith ''in''
                    ([] @ (''a.json'', Parsed (JObj bird_doc)) # [(''b.json'', Parsed (JObj dog_doc))])
                    cat_dog ''voc'' no_output) ''b.txt'' = Some (''dog 50.0 100.0'' @ [CHR 10])"
proof -
  have shapes: "map_of bird_doc ''shapes'' = Some (JArr [JObj bird_shape])"
    by (simp add: bird_doc_def)
  have shape: "JObj bird_shape \<in> set [JObj bird_shape]"
    by simp
  have label: "map_of bird_shape ''label'' = Some (JStr ''bird'')"
    by (simp add: bird_shape_def)
  have t: "truthy decimal_arith (JStr ''bird'')"
    by simp
  have n: "\<not> py_in (JStr ''bird'') cat_dog"
    by (simp add: cat_dog_def)
  have d: "distinct (map txt_name (filter is_json_entry ([] @ [(''b.json'', Parsed (JObj dog_doc))])))"
    by simp
  from unknown_label_fails_file[OF shapes shape label t n a_json_name,
      of "''voc''" "''in''" no_output "[]" "[(''b.json'', Parsed (JObj dog_doc))]"]
  show ?thesis
    using b_json_entry dog_doc_lines d by (fastforce simp: b_txt_name[symmetric])
qed

lemma strip_cat: "py_strip (''cat'' @ [CHR 10]) = ''cat''"
  by (simp add: py_strip_def is_space_def)

text \<open>
  Claim C8, as stated, fails in its second half: \<^verbatim>\<open>load_classes\<close> given both a class
  file and an inline list raises nothing. It returns the one class of the file and
  ignores the inline list.
\<close>

theorem both_sources_accepted:
  "load_classes classes_txt (Some ''classes.txt'') (Some ''dog'') = Inr [''cat'']"
  using strip_cat
  by (simp add: given_def load_classes_def classes_txt_def)

text \<open>
  Claim C8, amended. \<^verbatim>\<open>load_classes\<close> needs at least one source, not exactly one.
  With neither (each missing or empty) it raises its \<^verbatim>\<open>ValueError\<close>, whatever the file
  system holds. With a class file, the result is the one of the file alone: an
  inline list given besides it changes nothing and is no error.
\<close>

theorem class_source_neither_or_both:
  "(\<not> given cf \<and> \<not> given cs \<longrightarrow> load_classes rl cf cs = Inl NoClassSource) \<and>
   (given cf \<and> given cs \<longrightarrow> load_classes rl cf cs = load_classes rl cf None)"
  by (simp add: load_classes_def)

theorem class_source_neither_or_both_witness:
  "load_classes classes_txt None None = Inl NoClassSource \<and>
   load_classes classes_txt (Some []) None = Inl NoClassSource \<and>
   load_classes classes_txt (Some ''classes.txt'') (Some ''dog'') =
     load_classes classes_txt (Some ''classes.txt'') None"
  using class_source_neither_or_both[of None None classes_txt]
    class_source_neither_or_both[of "Some []" None classes_txt]
    class_source_neither_or_both[of "Some ''classes.txt''" "Some ''dog''" classes_txt]
  by (simp add: given_def)

lemma truthy_nonzero:
  "truthy P v \<Longrightarrow> as_num v = Some y \<Longrightarrow> \<not> num_is_zero P y"
  by (cases v) (auto split: if_splits)

lemma overflow_not_zerodiv [simp]: "overflow r \<noteq> Inl ZeroDivisionError"
  by (simp add: overflow_def split: option.splits)

lemma py_truediv_not_zerodiv:
  "truthy P b \<Longrightarrow> py_truediv P a b \<noteq> Inl ZeroDivisionError"
  by (auto simp: py_truediv_def dest: truthy_nonzero split: option.splits)

lemma py_getitem_not_zerodiv [simp]: "py_getitem p i \<noteq> Inl ZeroDivisionError"
  by (cases p) simp_all

lemma py_iter_not_zerodiv [simp]: "py_iter p \<noteq> Inl ZeroDivisionError"
  by (cases p) simp_all

lemma py_get_not_zerodiv [simp]: "py_get p k d \<noteq> Inl ZeroDivisionError"
  by (cases p) simp_all

lemma py_format_not_zerodiv [simp]: "py_format P d v \<noteq> Inl ZeroDivisionError"
  by (simp add: py_format_def split: option.splits json.splits)

lemma index_from_not_zerodiv [simp]: "index_from i l cs \<noteq> Inl ZeroDivisionError"
  by (induction cs arbitrary: i) simp_all

lemma py_index_not_zerodiv [simp]: "py_index cs v \<noteq> Inl ZeroDivisionError"
  by (cases v) simp_all

lemma map_err_not:
  "(\<And>x. f x \<noteq> Inl e) \<Longrightarrow> map_err f xs \<noteq> Inl e"
  by (induction xs) (auto simp: bnd_eq_Inl)

lemma yolo_point_not_zerodiv:
  "truthy P w \<Longrightarrow> truthy P h \<Longrightarrow> yolo_point P w h p \<noteq> Inl ZeroDivisionError"
  by (auto simp: yolo_point_def bnd_eq_Inl py_truediv_not_zerodiv)

lemma voc_point_not_zerodiv: "voc_point P p \<noteq> Inl ZeroDivisionError"
  by (auto simp: voc_point_def bnd_eq_Inl)

lemma shape_line_not_zerodiv:
  assumes "truthy P w" "truthy P h"
  shows "shape_line P classes w h format s \<noteq> Inl ZeroDivisionError"
  using map_err_not[of "yolo_point P w h" ZeroDivisionError, OF yolo_point_not_zerodiv[OF assms]]
    map_err_not[of "voc_point P" ZeroDivisionError, OF voc_point_not_zerodiv]
  by (auto simp: shape_line_def bnd_eq_Inl split: if_splits json.splits)

lemma shapes_loop_not_zerodiv:
  assumes "truthy P w" "truthy P h"
  shows "shapes_loop P classes w h format ss acc \<noteq> Inl ZeroDivisionError"
proof (induction ss arbitrary: acc)
  case Nil
  show ?case by simp
next
  case (Cons s ss)
  show ?case using shape_line_not_zerodiv[OF assms, of classes format s] Cons
    by (auto split: sum.splits option.splits)
qed

lemma file_lines_not_zerodiv:
  "file_lines P classes format data \<noteq> Inl ZeroDivisionError"
  by (auto simp: file_lines_def bnd_eq_Inl shapes_loop_not_zerodiv)

lemma file_lines_missing:
  assumes "\<not> has_dimension P dkvs ''imageWidth'' \<or> \<not> has_dimension P dkvs ''imageHeight''"
  shows "file_lines P classes format (JObj dkvs) = Inl MissingDimensions"
  using assms by (auto simp: file_lines_def has_dimension_def split: option.splits)

text \<open>
  Claim C10. When \<^verbatim>\<open>imageWidth\<close> or \<^verbatim>\<open>imageHeight\<close> is absent or falsy, the
  \<^verbatim>\<open>try\<close> block raises the missing-dimensions error whatever the shapes are, the round
  of the loop only prints it and the loop goes on with the remaining files. No
  document at all makes the block raise \<^verbatim>\<open>ZeroDivisionError\<close>: a division by a zero
  width or height is never evaluated.
\<close>

theorem missing_dimensions_fail_file:
  "(\<not> (has_dimension P dkvs ''imageWidth'' \<and> has_dimension P dkvs ''imageHeight'') \<longrightarrow>
      file_lines P classes format (JObj dkvs) = Inl MissingDimensions \<and>
      (py_endswith (py_lower fname) ''.json'' \<longrightarrow>
        convert_file P json_dir classes format (fname, Parsed (JObj dkvs)) st =
          say (ErrorProcessing (os_path_join json_dir fname) MissingDimensions) st \<and>
        convert_json_to_txt P json_dir ((fname, Parsed (JObj dkvs)) # rest) classes format st =
          convert_json_to_txt P json_dir rest classes format
            (say (ErrorProcessing (os_path_join json_dir fname) MissingDimensions) st))) \<and>
   file_lines P classes format data \<noteq> Inl ZeroDivisionError"
proof -
  have "file_lines P classes format (JObj dkvs) = Inl MissingDimensions"
    if "\<not> (has_dimension P dkvs ''imageWidth'' \<and> has_dimension P dkvs ''imageHeight'')"
    using that file_lines_missing[of P dkvs classes format] by blast
  then show ?thesis
    by (auto simp: convert_file_def convert_json_to_txt_def file_lines_not_zerodiv)
qed

theorem missing_dimensions_fail_file_witness:
  "file_lines decimal_arith cat_dog ''yolo'' (JObj flat_doc) = Inl MissingDimensions \<and>
   convert_file decimal_arith ''in'' cat_dog ''yolo'' (''a.json'', Parsed (JObj flat_doc)) no_output =
     say (ErrorProcessing (os_path_join ''in'' ''a.json'') MissingDimensions) no_output \<and>
   convert_json_to_txt decimal_arith ''in'' [(''a.json'', Parsed (JObj flat_doc))] cat_dog ''yolo''
       no_output =
     convert_json_to_txt decimal_arith ''in'' [] cat_dog ''yolo''
       (say (ErrorProcessing (os_path_join ''in'' ''a.json'') MissingDimensions) no_output) \<and>
   file_lines decimal_arith cat_dog ''yolo'' (JObj bird_doc) \<noteq> Inl ZeroDivisionError"
  using missing_dimensions_fail_file[of decimal_arith flat_doc cat_dog "''yolo''" "''a.json''"
      "''in''" no_output "[]" "JObj bird_doc"] a_json_name
  by (simp add: has_dimension_def flat_doc_def)

lemma index_from_first:
  "i < length cs \<Longrightarrow> cs ! i = l \<Longrightarrow> \<forall>j<i. cs ! j \<noteq> l \<Longrightarrow> index_from k l cs = Inr (k + i)"
proof (induction cs arbitrary: i k)
  case Nil
  then show ?case by simp
next
  case (Cons c cs)
  show ?case
  proof (cases i)
    case 0
    with Cons.prems show ?thesis by simp
  next
    case (Suc i')
    from Cons.prems Suc have "c \<noteq> l" by auto
    moreover have "index_from (Suc k) l cs = Inr (Suc k + i')"
      using Cons.prems Suc by (intro Cons.IH) auto
    ultimately show ?thesis using Suc by simp
  qed
qed

lemma index_from_mem: "l \<in> set cs \<Longrightarrow> \<exists>i. index_from k l cs = Inr i"
  by (induction cs arbitrary: k) auto

lemma map_err_all2:
  "list_all2 (\<lambda>x y. f x = Inr y) xs ys \<Longrightarrow> map_err f xs = Inr ys"
  by (induction xs ys rule: list_all2_induct) simp_all

lemma py_join_flat:
  "py_join sep (map (\<lambda>s. fst s @ sep @ snd s) strs) = py_join sep (flat_coords strs)"
proof (induction strs)
  case Nil
  show ?case by (simp add: flat_coords_def)
next
  case (Cons s strs)
  then show ?case by (cases strs) (simp_all add: flat_coords_def)
qed

lemma yolo_point_pair:
  assumes "as_num img_w = Some w" "as_num img_h = Some h" "truthy P img_w" "truthy P img_h"
    and "scaled P x w = Some sx" "scaled P y h = Some sy"
  shows "yolo_point P img_w img_h (point_json (x, y)) = Inr (sx @ '' '' @ sy)"
proof -
  have "\<not> num_is_zero P w" "\<not> num_is_zero P h"
    using assms(1-4) by (auto dest: truthy_nonzero)
  then show ?thesis using assms
    by (auto simp: yolo_point_def point_json_def py_truediv_def scaled_def overflow_def
        split: option.splits)
qed

text \<open>
  Claim C1. In the format \<^verbatim>\<open>yolo\<close> (the spec's normalized format), a shape whose label
  is the non-empty class name at the first position \<open>i\<close> of the class list, with a
  non-empty list of points, gives the line made of \<open>i\<close> in decimal, then, for each
  point in order, \<open>x / imageWidth\<close> and \<open>y / imageHeight\<close> with 6 decimals, all
  separated by single spaces, and a newline. (The class names that
  \<^verbatim>\<open>load_classes\<close> returns are never empty.) Its instance at the classes cat and dog
  is the theorem that follows.
\<close>

theorem normalized_line:
  assumes label: "map_of kvs ''label'' = Some (JStr l)" "l \<noteq> []"
    and idx: "i < length classes" "classes ! i = l" "\<forall>j<i. classes ! j \<noteq> l"
    and points: "map_of kvs ''points'' = Some (JArr (map point_json xys))" "xys \<noteq> []"
    and dims: "as_num img_w = Some w" "as_num img_h = Some h" "truthy P img_w" "truthy P img_h"
    and strs: "list_all2 (\<lambda>xy s. scaled P (fst xy) w = Some (fst s) \<and>
                                  scaled P (snd xy) h = Some (snd s)) xys strs"
  shows "shape_line P classes img_w img_h ''yolo'' (JObj kvs) =
           Inr (Some (str_nat i @ '' '' @ py_join '' '' (flat_coords strs) @ [CHR 10]))"
proof -
  have mem: "py_in (JStr l) classes"
    using idx(1,2) by auto
  have index: "py_index classes (JStr l) = Inr i"
    using index_from_first[OF idx, of 0] by simp
  have "list_all2 (\<lambda>p s. yolo_point P img_w img_h p = Inr s)
          (map point_json xys) (map (\<lambda>s. fst s @ '' '' @ snd s) strs)"
    using strs yolo_point_pair[OF dims]
    by (auto simp: list_all2_map1 list_all2_map2 elim!: list_all2_mono)
  then have coords: "map_err (yolo_point P img_w img_h) (map point_json xys) =
      Inr (map (\<lambda>s. fst s @ '' '' @ snd s) strs)"
    by (rule map_err_all2)
  show ?thesis
    using label points mem index coords py_join_flat[of "'' ''" strs]
    by (simp add: shape_line_def)
qed

lemma scaled_half:
  "scaled decimal_arith (I 50) (I 100) = Some ''0.500000''"
  "scaled decimal_arith (I 100) (I 200) = Some ''0.500000''"
proof -
  have a: "nat (round_half_even (\<bar>1 / 2\<bar> * 10 ^ 6)) = 500000"
    by (simp add: round_half_even_def Let_def)
  have b: "str_nat 0 = ''0''"
    by (simp add: str_nat.simps)
  have c: "str_nat 500000 = ''500000''"
    by (simp add: str_nat.simps)
  have "fixed_str 6 (1 / 2) = ''0.500000''"
    unfolding fixed_str_def Let_def a by (simp add: b c zero_pad_def)
  then show "scaled decimal_arith (I 50) (I 100) = Some ''0.500000''"
    "scaled decimal_arith (I 100) (I 200) = Some ''0.500000''"
    by (simp_all add: scaled_def decimal_arith_def)
qed

theorem normalized_line_cat_dog:
  "shape_line decimal_arith cat_dog (JInt 100) (JInt 200) ''yolo'' (JObj dog_shape) =
     Inr (Some (''1 0.500000 0.500000'' @ [CHR 10]))"
proof -
  have label: "map_of dog_shape ''label'' = Some (JStr ''dog'')" "''dog'' \<noteq> []"
    by (simp_all add: dog_shape_def)
  have idx: "1 < length cat_dog" "cat_dog ! 1 = ''dog''" "\<forall>j<1. cat_dog ! j \<noteq> ''dog''"
    by (simp_all add: cat_dog_def)
  have points: "map_of dog_shape ''points'' = Some (JArr (map point_json [(I 50, I 100)]))"
    "[(I 50 :: rat num, I 100 :: rat num)] \<noteq> []"
    by (simp_all add: dog_shape_def point_json_def)
  have dims: "as_num (JInt 100 :: rat json) = Some (I 100)" "as_num (JInt 200 :: rat json) = Some (I 200)"
    "truthy decimal_arith (JInt 100)" "truthy decimal_arith (JInt 200)"
    by simp_all
  have strs: "list_all2 (\<lambda>xy s. scaled decimal_arith (fst xy) (I 100) = Some (fst s) \<and>
      scaled decimal_arith (snd xy) (I 200) = Some (snd s))
      [(I 50, I 100)] [(''0.500000'', ''0.500000'')]"
    by (simp add: scaled_half)
  have one: "str_nat (Suc 0) = ''1''"
    by (simp add: str_nat.simps)
  show ?thesis
    using normalized_line[OF label idx points dims strs]
    by (simp add: one flat_coords_def)
qed

text \<open>
  Claim C9. In any format other than \<^verbatim>\<open>yolo\<close> (the spec's absolute format, \<^verbatim>\<open>voc\<close>), a
  shape whose label is a non-empty class name, with a non-empty list of points,
  gives the line made of the label, then, for each point in order, \<open>x\<close> and \<open>y\<close> with
  1 decimal, all separated by single spaces, and a newline. The image width and
  height have no part in it: any two pairs of them give the same result.
\<close>

theorem absolute_line:
  assumes label: "map_of kvs ''label'' = Some (JStr l)" "l \<noteq> []" "l \<in> set classes"
    and points: "map_of kvs ''points'' = Some (JArr (map point_json xys))" "xys \<noteq> []"
    and format: "format \<noteq> ''yolo''"
    and strs: "list_all2 (\<lambda>xy s. fmt P 1 (fst xy) = Some (fst s) \<and>
                                  fmt P 1 (snd xy) = Some (snd s)) xys strs"
  shows "shape_line P classes img_w img_h format (JObj kvs) =
           Inr (Some (l @ '' '' @ py_join '' '' (flat_coords strs) @ [CHR 10])) \<and>
         shape_line P classes img_w img_h format (JObj kvs) =
           shape_line P classes img_w' img_h' format (JObj kvs)"
proof -
  obtain i where index: "py_index classes (JStr l) = Inr i"
    using index_from_mem[OF label(3), of 0] by auto
  have "list_all2 (\<lambda>p s. voc_point P p = Inr s)
          (map point_json xys) (map (\<lambda>s. fst s @ '' '' @ snd s) strs)"
    using strs voc_point_pair[of P]
    by (auto simp: list_all2_map1 list_all2_map2 elim!: list_all2_mono)
  then have coords: "map_err (voc_point P) (map point_json xys) =
      Inr (map (\<lambda>s. fst s @ '' '' @ snd s) strs)"
    by (rule map_err_all2)
  have "shape_line P classes w h format (JObj kvs) =
      Inr (Some (l @ '' '' @ py_join '' '' (flat_coords strs) @ [CHR 10]))" for w h
    using label points format index coords py_join_flat[of "'' ''" strs]
    by (simp add: shape_line_def)
  then show ?thesis by simp
qed

theorem absolute_line_cat_dog:
  "shape_line decimal_arith cat_dog (JInt 100) (JInt 200) ''voc'' (JObj dog_shape) =
     Inr (Some (''dog 50.0 100.0'' @ [CHR 10])) \<and>
   shape_line decimal_arith cat_dog (JInt 100) (JInt 200) ''voc'' (JObj dog_shape) =
     shape_line decimal_arith cat_dog (JInt 640) (JInt 480) ''voc'' (JObj dog_shape)"
proof -
  have label: "map_of dog_shape ''label'' = Some (JStr ''dog'')" "''dog'' \<noteq> []"
    "''dog'' \<in> set cat_dog"
    by (simp_all add: dog_shape_def cat_dog_def)
  have points: "map_of dog_shape ''points'' = Some (JArr (map point_json [(I 50, I 100)]))"
    "[(I 50 :: rat num, I 100 :: rat num)] \<noteq> []"
    by (simp_all add: dog_shape_def point_json_def)
  have format: "''voc'' \<noteq> ''yolo''"
    by simp
  have strs: "list_all2 (\<lambda>xy s. fmt decimal_arith 1 (fst xy) = Some (fst s) \<and>
      fmt decimal_arith 1 (snd xy) = Some (snd s)) [(I 50, I 100)] [(''50.0'', ''100.0'')]"
    using fixed_50_100 by simp
  show ?thesis
    using absolute_line[OF label points format strs, of "JInt 100" "JInt 200" "JInt 640" "JInt 480"]
    by (auto simp: flat_coords_def)
qed

lemma map_of_update_shapes:
  "map_of (AList.update k v al) k' = (if k' = k then Some v else map_of al k')"
  by (simp add: update_conv')

text \<open>
  Claim C3, as stated, fails: the label is tested before the points. A shape with
  an empty list of points and a label outside the class list makes the file fail:
  no line, no file written, one error printed.
\<close>

theorem empty_points_unknown_label_fails:
  "file_lines decimal_arith cat_dog ''yolo'' (JObj bird_no_points_doc) = Inl UnknownClass \<and>
   convert_json_to_txt decimal_arith ''in'' [(''a.json'', Parsed (JObj bird_no_points_doc))]
       cat_dog ''yolo'' no_output =
     \<lparr>txt_files = Map.empty, printed = [ErrorProcessing ''in/a.json'' UnknownClass]\<rparr>"
proof -
  have a: "file_lines decimal_arith cat_dog ''yolo'' (JObj bird_no_points_doc) = Inl UnknownClass"
    by (simp add: file_lines_def bird_no_points_doc_def bird_no_points_def shape_line_def
        cat_dog_def)
  have b: "os_path_join ''in'' ''a.json'' = ''in/a.json''"
    by (simp add: os_path_join_def)
  show ?thesis
    using a a_json_name b
    by (simp add: convert_json_to_txt_def convert_file_def say_def no_output_def)
qed

text \<open>
  Claim C3, amended. A shape with an empty list of points whose label is missing,
  falsy or a class name gives no line and raises nothing: the file is converted as
  if the shape were not in it, to the same lines or to the same error.
\<close>

theorem empty_points_shape_skipped:
  assumes points: "map_of kvs ''points'' = Some (JArr [])"
    and label: "label_passes P classes kvs"
    and shapes: "map_of dkvs ''shapes'' = Some (JArr (before @ JObj kvs # after))"
  shows "shape_line P classes w h format (JObj kvs) = Inr None \<and>
         file_lines P classes format (JObj dkvs) =
           file_lines P classes format (JObj (AList.update ''shapes'' (JArr (before @ after)) dkvs))"
proof -
  have skip: "shape_line P classes w h format (JObj kvs) = Inr None" for w h
    using points label
    by (cases "map_of kvs ''label''") (auto simp: shape_line_def label_passes_def)
  have "shapes_loop P classes w h format (JObj kvs # after) =
      shapes_loop P classes w h format after" for w h
    by (rule ext) (simp add: skip)
  then have loop: "shapes_loop P classes w h format (before @ JObj kvs # after) [] =
      shapes_loop P classes w h format (before @ after) []" for w h
    by (simp add: shapes_loop_append)
  show ?thesis
    using skip shapes loop
    by (simp add: file_lines_def map_of_update_shapes)
qed

theorem empty_points_shape_skipped_witness:
  "shape_line decimal_arith cat_dog (JInt 100) (JInt 200) ''yolo'' (JObj cat_no_points) = Inr None \<and>
   file_lines decimal_arith cat_dog ''yolo'' (JObj cat_dog_doc) =
     file_lines decimal_arith cat_dog ''yolo''
       (JObj (AList.update ''shapes'' (JArr ([] @ [JObj dog_shape])) cat_dog_doc))"
proof -
  have points: "map_of cat_no_points ''points'' = Some (JArr [])"
    by (simp add: cat_no_points_def)
  have label: "label_passes decimal_arith cat_dog cat_no_points"
    by (simp add: label_passes_def cat_no_points_def cat_dog_def)
  have shapes: "map_of cat_dog_doc ''shapes'' = Some (JArr ([] @ JObj cat_no_points # [JObj dog_shape]))"
    by (simp add: cat_dog_doc_def)
  show ?thesis
    by (rule empty_points_shape_skipped[OF points label shapes])
qed

text \<open>
  Claim C4. Running the converter's file raises \<^verbatim>\<open>NameError\<close> for the name \<^verbatim>\<open>List\<close> when
  the definition of \<^verbatim>\<open>convert_json_to_txt\<close> is executed: the imports and
  \<^verbatim>\<open>load_classes\<close> are bound by then, \<^verbatim>\<open>main\<close> is neither defined nor run. So every
  run of the program ends in this \<^verbatim>\<open>NameError\<close>, whatever the arguments, the class
  sources and the directory are: nothing is parsed, loaded or read.
\<close>

theorem converter_raises_name_error:
  "exec_module json2txt_converter fresh_module =
     (Some (NameError ''List''),
      \<lparr>bound = [''load_classes'', ''tqdm'', ''argparse'', ''json'', ''os''], main_ran = False\<rparr>) \<and>
   script P read_lines listing a st = Inl (NameError ''List'')"
  by (simp add: script_def json2txt_converter_def fresh_module_def builtins_def)

section \<open>Properties of the enhancer\<close>

text \<open>
  Claim C6. \<^verbatim>\<open>apply_enhancement\<close> is the pipeline of the selected transforms:
  brightness, contrast, sharpness, color and blur in this order, each present
  exactly when its key is in the parameters (the blur also needs a positive
  radius), each applied to the result of the previous one.
\<close>

lemma bnd_return [simp]: "bnd m Inr = m"
  by (cases m) simp_all

lemma run_steps_append:
  "run_steps (ts @ us) = (\<lambda>img. bnd (run_steps ts img) (run_steps us))"
proof (induction ts)
  case Nil
  show ?case by (rule ext) simp
next
  case (Cons t ts)
  show ?case
  proof (rule ext)
    fix img
    show "run_steps ((t # ts) @ us) img = bnd (run_steps (t # ts) img) (run_steps us)"
      by (cases "t img") (simp_all add: Cons.IH)
  qed
qed

lemma run_steps_Nil [simp]: "run_steps [] = Inr"
  by (rule ext) simp

lemma run_optional_step:
  "run_steps (case c of None \<Rightarrow> [] | Some v \<Rightarrow> [t v]) =
     (\<lambda>img. case c of None \<Rightarrow> Inr img | Some v \<Rightarrow> t v img)"
  by (rule ext) (simp split: option.splits)

lemma run_blur_step:
  "run_steps (case c of None \<Rightarrow> [] | Some v \<Rightarrow> if p v then [t v] else []) =
     (\<lambda>img. case c of None \<Rightarrow> Inr img | Some v \<Rightarrow> if p v then t v img else Inr img)"
  by (rule ext) (simp split: option.splits)

lemma selected_steps_append:
  "selected_steps L params =
     (case params ''brightness'' of None \<Rightarrow> [] | Some v \<Rightarrow> [enhance_brightness L v]) @
     (case params ''contrast'' of None \<Rightarrow> [] | Some v \<Rightarrow> [enhance_contrast L v]) @
     (case params ''sharpness'' of None \<Rightarrow> [] | Some v \<Rightarrow> [enhance_sharpness L v]) @
     (case params ''color'' of None \<Rightarrow> [] | Some v \<Rightarrow> [enhance_color L v]) @
     (case params ''blur_radius'' of None \<Rightarrow> [] | Some v \<Rightarrow>
        if positive L v then [gaussian_blur L v] else [])"
  by (simp add: selected_steps_def transforms_def split: option.splits)

theorem apply_enhancement_pipeline:
  "apply_enhancement L image0 params = run_steps (selected_steps L params) image0"
  unfolding selected_steps_append apply_enhancement_def run_steps_append run_optional_step
    run_blur_step
  by simp

theorem apply_enhancement_pipeline_witness:
  "apply_enhancement tag_pil ''i'' [''blur_radius'' \<mapsto> 2, ''color'' \<mapsto> 1, ''brightness'' \<mapsto> 3] =
     Inr ''iBKG'' \<and>
   apply_enhancement tag_pil ''i'' [''blur_radius'' \<mapsto> 0, ''contrast'' \<mapsto> 5, ''sharpness'' \<mapsto> 1] =
     Inr ''iCS''"
  using apply_enhancement_pipeline[of tag_pil "''i''"
      "[''blur_radius'' \<mapsto> 2, ''color'' \<mapsto> 1, ''brightness'' \<mapsto> 3]"]
    apply_enhancement_pipeline[of tag_pil "''i''"
      "[''blur_radius'' \<mapsto> 0, ''contrast'' \<mapsto> 5, ''sharpness'' \<mapsto> 1]"]
  by (simp add: selected_steps_def transforms_def tag_pil_def)

lemma out_annotations_enh_say [simp]: "out_annotations (enh_say m st) = out_annotations st"
  by (simp add: enh_say_def)

lemma out_annotations_make_dirs [simp]:
  "out_annotations (make_dirs es st) = out_annotations st"
  unfolding make_dirs_def by (induction es arbitrary: st) simp_all

lemma filter_update_other:
  "filter (\<lambda>kv. fst kv \<noteq> k) (AList.update k v al) = filter (\<lambda>kv. fst kv \<noteq> k) al"
  by (induction al) auto

lemma update_only_image_path:
  "only_image_path_replaced kvs name (JObj (AList.update ''imagePath'' (JStr name) kvs))"
  by (simp add: only_image_path_replaced_def update_conv' filter_update_other)

lemma synced_document:
  assumes "bnd (read_annotation ann_files (base_name @ ''.json'')) (\<lambda>ann_data.
             bnd (py_setitem ann_data ''imagePath'' (JStr img_name)) (\<lambda>ann_data.
             case write_error L d n of Some e \<Rightarrow> Inl e | None \<Rightarrow> Inr ann_data)) = Inr doc"
  shows "\<exists>kvs. ann_files (base_name @ ''.json'') = Some (Parsed (JObj kvs)) \<and>
               doc = JObj (AList.update ''imagePath'' (JStr img_name) kvs)"
proof -
  from assms obtain ann_data where
    r: "read_annotation ann_files (base_name @ ''.json'') = Inr ann_data" and
    s: "bnd (py_setitem ann_data ''imagePath'' (JStr img_name)) (\<lambda>ann_data.
             case write_error L d n of Some e \<Rightarrow> Inl e | None \<Rightarrow> Inr ann_data) = Inr doc"
    by (auto simp: bnd_eq_Inr)
  from s obtain doc' where
    p: "py_setitem ann_data ''imagePath'' (JStr img_name) = Inr doc'" and
    w: "(case write_error L d n of Some e \<Rightarrow> Inl e | None \<Rightarrow> Inr doc') = Inr doc"
    by (auto simp: bnd_eq_Inr)
  from w have "doc' = doc"
    by (simp split: option.splits)
  with p obtain kvs where "ann_data = JObj kvs"
    "doc = JObj (AList.update ''imagePath'' (JStr img_name) kvs)"
    by (cases ann_data) auto
  moreover from r have "ann_files (base_name @ ''.json'') = Some (Parsed ann_data)"
    by (simp add: read_annotation_def split: option.splits file_read.splits)
  ultimately show ?thesis by simp
qed

lemma sync_annotation_cases:
  assumes "out_annotations (sync_annotation L ann_files annotation_dir base_name a img_name st) key
             = Some doc"
  shows "out_annotations st key = Some doc \<or>
         (\<exists>kvs. ann_files (base_name @ ''.json'') = Some (Parsed (JObj kvs)) \<and>
                key = (''annotations_'' @ a, new_ann_name base_name a) \<and>
                doc = JObj (AList.update ''imagePath'' (JStr img_name) kvs))"
proof (cases "bnd (read_annotation ann_files (base_name @ ''.json'')) (\<lambda>ann_data.
             bnd (py_setitem ann_data ''imagePath'' (JStr img_name)) (\<lambda>ann_data.
             case write_error L (''annotations_'' @ a) (new_ann_name base_name a) of
               Some e \<Rightarrow> Inl e | None \<Rightarrow> Inr ann_data))")
  case (Inl e)
  with assms show ?thesis
    by (simp add: sync_annotation_def)
next
  case (Inr d)
  from synced_document[OF Inr] obtain kvs where
    k: "ann_files (base_name @ ''.json'') = Some (Parsed (JObj kvs))"
      "d = JObj (AList.update ''imagePath'' (JStr img_name) kvs)"
    by blast
  from assms Inr have "((out_annotations st)
      ((''annotations_'' @ a, new_ann_name base_name a) \<mapsto> d)) key = Some doc"
    by (simp add: sync_annotation_def)
  with k show ?thesis
    by (cases "key = (''annotations_'' @ a, new_ann_name base_name a)") auto
qed

lemma annotation_forI:
  assumes "ann_files (base_name @ ''.json'') = Some (Parsed (JObj kvs))"
    and "key = (''annotations_'' @ alias_name e, new_ann_name base_name (alias_name e))"
    and "doc = JObj (AList.update ''imagePath'' (JStr (new_img_name base_name (alias_name e) ext)) kvs)"
  shows "annotation_for ann_files base_name ext e key doc"
  using assms by (simp add: annotation_for_def update_only_image_path)

lemma enhance_all_cases:
  assumes "out_annotations
             (snd (enhance_all L ann_files annotation_dir base_name ext img exif es st)) key = Some doc"
  shows "out_annotations st key = Some doc \<or>
         (\<exists>e\<in>set es. annotation_for ann_files base_name ext e key doc)"
  using assms
proof (induction es arbitrary: st)
  case Nil
  then show ?case by simp
next
  case (Cons e es)
  show ?case
  proof (cases "apply_enhancement L img (parameters e)")
    case (Inl err)
    with Cons.prems show ?thesis by simp
  next
    case (Inr enhanced_img)
    show ?thesis
    proof (cases "save_error L enhanced_img (''images_'' @ alias_name e)
                    (new_img_name base_name (alias_name e) ext) exif")
      case (Some err)
      with Inr Cons.prems show ?thesis by simp
    next
      case None
      let ?st1 = "st\<lparr>out_images := (out_images st)
                      ((''images_'' @ alias_name e, new_img_name base_name (alias_name e) ext) \<mapsto>
                         (enhanced_img, exif))\<rparr>"
      let ?st2 = "sync_annotation L ann_files annotation_dir base_name (alias_name e)
                    (new_img_name base_name (alias_name e) ext) ?st1"
      from Cons.prems Inr None have
        "out_annotations (snd (enhance_all L ann_files annotation_dir base_name ext img exif es ?st2))
           key = Some doc"
        by simp
      from Cons.IH[OF this] show ?thesis
      proof
        assume "out_annotations ?st2 key = Some doc"
        from sync_annotation_cases[OF this] show ?thesis
          by (auto intro: annotation_forI)
      next
        assume "\<exists>e\<in>set es. annotation_for ann_files base_name ext e key doc"
        then show ?thesis by auto
      qed
    qed
  qed
qed

lemma process_image_cases:
  assumes "out_annotations (process_image L ann_files annotation_dir enhancements entry st) key
             = Some doc"
  shows "out_annotations st key = Some doc \<or>
         (\<exists>e\<in>set enhancements.
            annotation_for ann_files (fst (splitext (fst entry))) (snd (splitext (fst entry))) e key doc)"
proof (cases "is_image_file (fst entry) \<and> ann_files (fst (splitext (fst entry)) @ ''.json'') \<noteq> None")
  case False
  with assms show ?thesis
    by (auto simp: process_image_def Let_def split: if_splits)
next
  case True
  show ?thesis
  proof (cases "open_image L (snd entry)")
    case (Inl e)
    with assms True show ?thesis
      by (simp add: process_image_def Let_def)
  next
    case (Inr opened)
    obtain r st' where run: "enhance_all L ann_files annotation_dir (fst (splitext (fst entry)))
        (snd (splitext (fst entry))) (snd opened) (fst opened) enhancements st = (r, st')"
      by (cases "enhance_all L ann_files annotation_dir (fst (splitext (fst entry)))
        (snd (splitext (fst entry))) (snd opened) (fst opened) enhancements st") blast
    with assms True Inr have "out_annotations st' key = Some doc"
      by (cases r) (simp_all add: process_image_def Let_def)
    with run have "out_annotations (snd (enhance_all L ann_files annotation_dir
        (fst (splitext (fst entry))) (snd (splitext (fst entry))) (snd opened) (fst opened)
        enhancements st)) key = Some doc"
      by simp
    then show ?thesis
      by (rule enhance_all_cases)
  qed
qed

lemma fold_process_image_cases:
  assumes "out_annotations (fold (process_image L ann_files annotation_dir enhancements) image_dir st)
             key = Some doc"
  shows "out_annotations st key = Some doc \<or>
         (\<exists>entry\<in>set image_dir. \<exists>e\<in>set enhancements.
            annotation_for ann_files (fst (splitext (fst entry))) (snd (splitext (fst entry))) e key doc)"
  using assms
proof (induction image_dir arbitrary: st)
  case Nil
  then show ?case by simp
next
  case (Cons entry image_dir)
  from Cons.prems have "out_annotations
      (fold (process_image L ann_files annotation_dir enhancements) image_dir
         (process_image L ann_files annotation_dir enhancements entry st)) key = Some doc"
    by simp
  from Cons.IH[OF this] show ?case
  proof
    assume "out_annotations (process_image L ann_files annotation_dir enhancements entry st) key
              = Some doc"
    from process_image_cases[OF this] show ?thesis by auto
  next
    assume "\<exists>entry\<in>set image_dir. \<exists>e\<in>set enhancements.
        annotation_for ann_files (fst (splitext (fst entry))) (snd (splitext (fst entry))) e key doc"
    then show ?thesis by auto
  qed
qed

lemma sync_annotation_writes:
  assumes "ann_files (base_name @ ''.json'') = Some (Parsed (JObj kvs))"
    and "write_error L (''annotations_'' @ a) (new_ann_name base_name a) = None"
  shows "sync_annotation L ann_files annotation_dir base_name a img_name st =
           st\<lparr>out_annotations := (out_annotations st)
                ((''annotations_'' @ a, new_ann_name base_name a) \<mapsto>
                   JObj (AList.update ''imagePath'' (JStr img_name) kvs))\<rparr>"
  using assms by (simp add: sync_annotation_def read_annotation_def)

text \<open>
  Claim C7. When the annotation of an image is a JSON object and the write does not
  fail, the inner \<^verbatim>\<open>try\<close> writes, under \<^verbatim>\<open>{base}_{alias}.json\<close> in the directory of the
  alias, a document whose \<^verbatim>\<open>imagePath\<close> is the new image name and whose other fields
  are those of the original, unchanged and in their order. And every annotation
  that a run of \<^verbatim>\<open>process_dataset\<close> leaves in the output, unless it was there before
  the run, is such a document, for an image of the directory and an enhancement of
  the configuration.
\<close>

theorem annotation_only_image_path_replaced:
  "(ann_files (base_name @ ''.json'') = Some (Parsed (JObj kvs)) \<and>
    write_error L (''annotations_'' @ a) (new_ann_name base_name a) = None \<longrightarrow>
      (\<exists>written.
         out_annotations (sync_annotation L ann_files annotation_dir base_name a img_name st0)
           (''annotations_'' @ a, new_ann_name base_name a) = Some written \<and>
         only_image_path_replaced kvs img_name written)) \<and>
   (out_annotations (process_dataset L image_dir ann_files annotation_dir enhancements st) key
      = Some doc \<and>
    out_annotations st key \<noteq> Some doc \<longrightarrow>
      (\<exists>entry\<in>set image_dir. \<exists>e\<in>set enhancements.
         annotation_for ann_files (fst (splitext (fst entry))) (snd (splitext (fst entry))) e
           key doc))"
proof (intro conjI impI)
  assume "ann_files (base_name @ ''.json'') = Some (Parsed (JObj kvs)) \<and>
    write_error L (''annotations_'' @ a) (new_ann_name base_name a) = None"
  then show "\<exists>written.
      out_annotations (sync_annotation L ann_files annotation_dir base_name a img_name st0)
        (''annotations_'' @ a, new_ann_name base_name a) = Some written \<and>
      only_image_path_replaced kvs img_name written"
    by (simp add: sync_annotation_writes update_only_image_path)
next
  assume a: "out_annotations (process_dataset L image_dir ann_files annotation_dir enhancements st)
      key = Some doc \<and> out_annotations st key \<noteq> Some doc"
  then have "out_annotations (fold (process_image L ann_files annotation_dir enhancements) image_dir
      (make_dirs enhancements st)) key = Some doc"
    by (simp add: process_dataset_def)
  from fold_process_image_cases[OF this] a
  show "\<exists>entry\<in>set image_dir. \<exists>e\<in>set enhancements.
      annotation_for ann_files (fst (splitext (fst entry))) (snd (splitext (fst entry))) e key doc"
    by simp
qed

lemma a_png_image: "is_image_file ''a.png''"
  by code_simp

lemma a_png_split: "splitext ''a.png'' = (''a'', ''.png'')"
  by code_simp

lemma one_image_run:
  "process_dataset tag_pil one_image one_annotation ''ann'' [brighter] empty_output =
     \<lparr>out_dirs = [''images_x'', ''annotations_x''],
      out_images = [(''images_x'', ''a_x.png'') \<mapsto> (''iB'', None)],
      out_annotations = [(''annotations_x'', ''a_x.json'') \<mapsto>
        JObj [(''version'', JStr ''5.0''), (''imagePath'', JStr ''a_x.png''),
              (''imageHeight'', JInt 200), (''shapes'', JArr [])]],
      enh_printed = [Processed ''a.png'' 1]\<rparr>"
proof -
  have e: "apply_enhancement tag_pil ''i'' (parameters brighter) = Inr ''iB''"
    by (simp add: apply_enhancement_def tag_pil_def brighter_def)
  have o: "open_image tag_pil (Inr ''i'') = Inr (None, ''i'')"
    by (simp add: open_image_def tag_pil_def)
  have s: "save_error tag_pil img d n x = None" "write_error tag_pil d n = None" for img d n x
    by (simp_all add: tag_pil_def)
  have a: "one_annotation ''a.json'' = Some (Parsed (JObj a_annotation))"
    by (simp add: one_annotation_def)
  have n: "alias_name brighter = ''x''"
    by (simp add: brighter_def)
  have y: "sync_annotation tag_pil one_annotation d ''a'' al img_name st =
      st\<lparr>out_annotations := (out_annotations st)
           ((''annotations_'' @ al, new_ann_name ''a'' al) \<mapsto>
              JObj (AList.update ''imagePath'' (JStr img_name) a_annotation))\<rparr>"
    for d al img_name and st :: "(string, rat) enh_state"
    using sync_annotation_writes[of one_annotation "''a''" a_annotation tag_pil al d img_name st] a s
    by simp
  show ?thesis
    unfolding process_dataset_def one_image_def
    by (simp add: process_image_def a_png_image a_png_split a o e s n y make_dirs_def
        new_img_name_def new_ann_name_def enh_say_def empty_output_def a_annotation_def)
qed

theorem annotation_only_image_path_replaced_witness:
  "(\<exists>written.
      out_annotations (sync_annotation tag_pil one_annotation ''ann'' ''a'' ''x'' ''a_x.png'' empty_output)
        (''annotations_'' @ ''x'', new_ann_name ''a'' ''x'') = Some written \<and>
      only_image_path_replaced a_annotation ''a_x.png'' written) \<and>
   (\<exists>entry\<in>set one_image. \<exists>e\<in>set [brighter].
      annotation_for one_annotation (fst (splitext (fst entry))) (snd (splitext (fst entry))) e
        (''annotations_x'', ''a_x.json'')
        (JObj [(''version'', JStr ''5.0''), (''imagePath'', JStr ''a_x.png''),
               (''imageHeight'', JInt 200), (''shapes'', JArr [])]))"
proof -
  have p1: "one_annotation (''a'' @ ''.json'') = Some (Parsed (JObj a_annotation))"
    by (simp add: one_annotation_def)
  have p2: "write_error tag_pil (''annotations_'' @ ''x'') (new_ann_name ''a'' ''x'') = None"
    by (simp add: tag_pil_def)
  have p3: "out_annotations
      (process_dataset tag_pil one_image one_annotation ''ann'' [brighter] empty_output)
      (''annotations_x'', ''a_x.json'') =
      Some (JObj [(''version'', JStr ''5.0''), (''imagePath'', JStr ''a_x.png''),
                  (''imageHeight'', JInt 200), (''shapes'', JArr [])])"
    by (simp add: one_image_run)
  have p4: "out_annotations empty_output (''annotations_x'', ''a_x.json'') \<noteq>
      Some (JObj [(''version'', JStr ''5.0''), (''imagePath'', JStr ''a_x.png''),
                  (''imageHeight'', JInt 200), (''shapes'', JArr [])])"
    by (simp add: empty_output_def)
  from annotation_only_image_path_replaced[of one_annotation "''a''" a_annotation tag_pil "''x''"
      "''ann''" "''a_x.png''" empty_output one_image "[brighter]" empty_output
      "(''annotations_x'', ''a_x.json'')"
      "JObj [(''version'', JStr ''5.0''), (''imagePath'', JStr ''a_x.png''),
             (''imageHeight'', JInt 200), (''shapes'', JArr [])]"] p1 p2 p3 p4
  show ?thesis
    by blast
qed

lemma suffix_of_extended:
  "suffix v (v @ d) \<Longrightarrow> d \<noteq> [] \<Longrightarrow> set v \<subseteq> set d"
proof (induction v rule: length_induct)
  case (1 v)
  note IH = "1.IH" and prems = "1.prems"
  from prems(1) obtain zs where "v @ d = zs @ v"
    by (auto simp: suffix_def)
  then consider (shorter) us where "v = zs @ us" "us @ d = v" | (longer) us where "v @ us = zs" "d = us @ v"
    by (auto simp: append_eq_append_conv2)
  then show ?case
  proof cases
    case shorter
    then have "length v = length zs + length us" "length us + length d = length v"
      by (metis length_append)+
    with prems(2) have "length us < length v"
      by (cases d) auto
    moreover have "suffix us (us @ d)"
      using shorter by (metis suffixI)
    ultimately have "set us \<subseteq> set d"
      using IH prems(2) by blast
    moreover have "set v = set us \<union> set d"
      using shorter(2) by (metis set_append)
    ultimately show ?thesis by blast
  next
    case longer
    then show ?thesis by auto
  qed
qed

lemma append_longer_suffix:
  assumes "X @ e1 = Y @ e2" "length e1 \<le> length e2"
  shows "\<exists>d. X = Y @ d \<and> e2 = d @ e1"
  using assms by (auto simp: append_eq_append_conv2)

lemma length_takeWhile_lt:
  "\<exists>x\<in>set xs. \<not> P x \<Longrightarrow> length (takeWhile P xs) < length xs"
  by (induction xs) auto

lemma names_cancel_le:
  assumes eq: "b1 @ v @ e1 = b2 @ v @ e2" and le: "length e1 \<le> length e2"
    and v: "v \<noteq> []" "hd v \<notin> set e2"
  shows "b1 = b2 \<and> e1 = e2"
proof -
  from eq have "(b1 @ v) @ e1 = (b2 @ v) @ e2" by simp
  from append_longer_suffix[OF this le]
  obtain d where d: "b1 @ v = (b2 @ v) @ d" "e2 = d @ e1"
    by blast
  show ?thesis
  proof (cases "d = []")
    case True
    with d show ?thesis by simp
  next
    case False
    have "b1 @ v = b2 @ (v @ d)"
      using d(1) by simp
    then have "suffix (v @ d) (b1 @ v)"
      by (rule suffixI)
    moreover have "suffix v (b1 @ v)"
      by (simp add: suffix_def)
    ultimately have "suffix v (v @ d)"
      using suffix_length_suffix[of v "b1 @ v" "v @ d"] by simp
    from suffix_of_extended[OF this False] v(1) have "hd v \<in> set d"
      by (cases v) auto
    with d(2) v(2) show ?thesis by simp
  qed
qed

lemma names_cancel:
  assumes "b1 @ v @ e1 = b2 @ v @ e2" "v \<noteq> []" "hd v \<notin> set e1" "hd v \<notin> set e2"
  shows "b1 = b2 \<and> e1 = e2"
proof (cases "length e1 \<le> length e2")
  case True
  from names_cancel_le[OF assms(1) True assms(2,4)] show ?thesis .
next
  case False
  then have "length e2 \<le> length e1" by simp
  from names_cancel_le[OF assms(1)[symmetric] this assms(2,3)] show ?thesis by simp
qed

lemma py_lower_char_dot: "py_lower_char c = CHR ''.'' \<Longrightarrow> c = CHR ''.''"
  by (auto simp: py_lower_char_def split: option.splits if_splits)

lemma py_lower_char_underscore: "py_lower_char CHR ''_'' = CHR ''_''"
  by (simp add: py_lower_char_def)

lemma extension_chars:
  "set (snd (splitext p)) \<subseteq> insert CHR ''.'' (set (takeWhile (\<lambda>x. x \<noteq> CHR ''.'') (rev p)))"
proof (cases "CHR ''.'' \<in> set p")
  case False
  then show ?thesis
    by (simp add: splitext_def rfind_def Let_def)
next
  case True
  let ?k = "length (takeWhile (\<lambda>x. x \<noteq> CHR ''.'') (rev p))"
  have k: "?k < length p"
    using True length_takeWhile_lt[of "rev p" "\<lambda>x. x \<noteq> CHR ''.''"] by auto
  have n: "nat (rfind p CHR ''.'') = length p - Suc ?k"
    using True k by (simp add: rfind_def)
  have "rev (drop (length p - Suc ?k) p) = take (Suc ?k) (rev p)"
    using k by (simp add: rev_drop)
  also have "\<dots> = take ?k (rev p) @ [rev p ! ?k]"
    using k by (simp add: take_Suc_conv_app_nth)
  also have "take ?k (rev p) = takeWhile (\<lambda>x. x \<noteq> CHR ''.'') (rev p)"
    by (rule takeWhile_eq_take[symmetric])
  also have "rev p ! ?k = CHR ''.''"
    using nth_length_takeWhile[of "\<lambda>x. x \<noteq> CHR ''.''" "rev p"] k by simp
  finally have "set (drop (length p - Suc ?k) p) =
      insert CHR ''.'' (set (takeWhile (\<lambda>x. x \<noteq> CHR ''.'') (rev p)))"
    by (metis Un_insert_right append_Nil2 list.simps(15) set_append set_rev)
  then show ?thesis
    by (auto simp: splitext_def Let_def n)
qed

lemma image_extension_no_underscore:
  assumes "is_image_file img_file"
  shows "CHR ''_'' \<notin> set (snd (splitext img_file))"
proof -
  from assms obtain x where x: "x \<in> set image_extensions" "suffix x (map py_lower_char img_file)"
    by (auto simp: is_image_file_def list_ex_iff py_endswith_def py_lower_def)
  then obtain q r where qr: "img_file = q @ r" "map py_lower_char r = x"
    by (auto simp: suffix_def map_eq_append_conv)
  from x(1) obtain t where t: "x = CHR ''.'' # t" "CHR ''.'' \<notin> set t" "CHR ''_'' \<notin> set t"
    by (auto simp: image_extensions_def)
  with qr(2) obtain c r' where r: "r = c # r'" "py_lower_char c = CHR ''.''" "map py_lower_char r' = t"
    by (cases r) auto
  then have c: "c = CHR ''.''"
    by (simp add: py_lower_char_dot)
  have nodot: "\<forall>y\<in>set r'. y \<noteq> CHR ''.''"
  proof
    fix y assume "y \<in> set r'"
    then have "py_lower_char y \<in> set t"
      using r(3) by auto
    with t(2) show "y \<noteq> CHR ''.''"
      by (auto simp: py_lower_char_def)
  qed
  have "rev img_file = rev r' @ CHR ''.'' # rev q"
    using qr(1) r(1) c by simp
  then have "takeWhile (\<lambda>x. x \<noteq> CHR ''.'') (rev img_file) = rev r'"
    using takeWhile_append2[of "rev r'" "\<lambda>x. x \<noteq> CHR ''.''" "CHR ''.'' # rev q"] nodot by simp
  with extension_chars[of img_file]
  have "set (snd (splitext img_file)) \<subseteq> insert CHR ''.'' (set r')"
    by simp
  moreover have "CHR ''_'' \<notin> set r'"
  proof
    assume "CHR ''_'' \<in> set r'"
    then have "py_lower_char CHR ''_'' \<in> set t"
      using r(3) by auto
    with t(3) show False
      by (simp add: py_lower_char_underscore)
  qed
  ultimately show ?thesis by auto
qed

lemma distinct_keys:
  assumes inj: "\<And>x a y a'. x \<in> set xs \<Longrightarrow> y \<in> set xs \<Longrightarrow> k x a = k y a' \<Longrightarrow> f x = f y \<and> a = a'"
    and "distinct (map f xs)" "distinct as"
  shows "distinct (concat (map (\<lambda>x. map (k x) as) xs))"
  using assms
proof (induction xs)
  case Nil
  show ?case by simp
next
  case (Cons x xs)
  have "distinct (map (k x) as)"
    using Cons.prems(1)[of x x] Cons.prems(3) by (auto simp: distinct_map inj_on_def)
  moreover have "distinct (concat (map (\<lambda>x. map (k x) as) xs))"
    using Cons.prems by (intro Cons.IH) auto
  moreover have "set (map (k x) as) \<inter> set (concat (map (\<lambda>x. map (k x) as) xs)) = {}"
  proof (rule ccontr)
    assume "set (map (k x) as) \<inter> set (concat (map (\<lambda>x. map (k x) as) xs)) \<noteq> {}"
    then obtain a y a' where "y \<in> set xs" "k x a = k y a'"
      by auto
    with Cons.prems(1)[of x y a a'] have "f x = f y" by simp
    with \<open>y \<in> set xs\<close> Cons.prems(2) show False by auto
  qed
  ultimately show ?case by simp
qed

lemma length_keys:
  "length (concat (map (\<lambda>x. map (k x) as) xs)) = length xs * length as"
  by (induction xs) simp_all


lemma out_images_make_dirs [simp]: "out_images (make_dirs es st) = out_images st"
  unfolding make_dirs_def by (induction es arbitrary: st) simp_all

lemma enh_printed_make_dirs [simp]: "enh_printed (make_dirs es st) = enh_printed st"
  unfolding make_dirs_def by (induction es arbitrary: st) simp_all

lemma map_add_rev_Cons:
  "m ++ map_of (rev (kv # kvs)) = m(fst kv \<mapsto> snd kv) ++ map_of (rev kvs)"
  by (cases kv) simp

lemma map_add_rev_append:
  "m ++ map_of (rev (xs @ ys)) = (m ++ map_of (rev xs)) ++ map_of (rev ys)"
  by simp

lemma enhance_all_succeeds:
  assumes ann: "ann_files (base_name @ ''.json'') = Some (Parsed (JObj kvs))"
    and ok: "list_all (version_succeeds L base_name ext img exif) es"
  shows "fst (enhance_all L ann_files d base_name ext img exif es st) = None \<and>
         enh_printed (snd (enhance_all L ann_files d base_name ext img exif es st)) = enh_printed st \<and>
         dom (out_images (snd (enhance_all L ann_files d base_name ext img exif es st))) =
           dom (out_images st) \<union>
           set (map (\<lambda>e. (''images_'' @ alias_name e, new_img_name base_name (alias_name e) ext)) es) \<and>
         out_annotations (snd (enhance_all L ann_files d base_name ext img exif es st)) =
           out_annotations st ++
           map_of (rev (map (\<lambda>e. ((''annotations_'' @ alias_name e,
                                    new_ann_name base_name (alias_name e)),
                                   JObj (AList.update ''imagePath''
                                           (JStr (new_img_name base_name (alias_name e) ext)) kvs)))
                          es))"
  using ok
proof (induction es arbitrary: st)
  case Nil
  show ?case by simp
next
  case (Cons e es)
  let ?f = "\<lambda>e. (''images_'' @ alias_name e, new_img_name base_name (alias_name e) ext)"
  let ?g = "\<lambda>e. ((''annotations_'' @ alias_name e, new_ann_name base_name (alias_name e)),
                  JObj (AList.update ''imagePath''
                          (JStr (new_img_name base_name (alias_name e) ext)) kvs))"
  from Cons.prems obtain enhanced_img where
    a: "apply_enhancement L img (parameters e) = Inr enhanced_img" and
    s: "save_error L enhanced_img (''images_'' @ alias_name e)
          (new_img_name base_name (alias_name e) ext) exif = None" and
    w: "write_error L (''annotations_'' @ alias_name e) (new_ann_name base_name (alias_name e)) = None"
    by (auto simp: version_succeeds_def split: sum.splits)
  define st1 where "st1 = st\<lparr>out_images := (out_images st)(?f e \<mapsto> (enhanced_img, exif))\<rparr>"
  define st2 where "st2 = st1\<lparr>out_annotations := (out_annotations st1)(fst (?g e) \<mapsto> snd (?g e))\<rparr>"
  have sync: "sync_annotation L ann_files d base_name (alias_name e)
      (new_img_name base_name (alias_name e) ext) st1 = st2"
    using ann w
      sync_annotation_writes[of ann_files base_name kvs L "alias_name e" d
        "new_img_name base_name (alias_name e) ext" st1]
    by (simp add: st2_def)
  have step: "enhance_all L ann_files d base_name ext img exif (e # es) st =
      enhance_all L ann_files d base_name ext img exif es st2"
    using a s sync by (simp add: st1_def)
  have p2: "enh_printed st2 = enh_printed st"
    and i2: "out_images st2 = (out_images st)(?f e \<mapsto> (enhanced_img, exif))"
    and a2: "out_annotations st2 = (out_annotations st)(fst (?g e) \<mapsto> snd (?g e))"
    by (simp_all add: st1_def st2_def)
  from Cons.prems have "list_all (version_succeeds L base_name ext img exif) es"
    by simp
  from Cons.IH[OF this, of st2] have
    r: "fst (enhance_all L ann_files d base_name ext img exif es st2) = None" and
    p: "enh_printed (snd (enhance_all L ann_files d base_name ext img exif es st2)) = enh_printed st2" and
    i: "dom (out_images (snd (enhance_all L ann_files d base_name ext img exif es st2))) =
          dom (out_images st2) \<union> set (map ?f es)" and
    o: "out_annotations (snd (enhance_all L ann_files d base_name ext img exif es st2)) =
          out_annotations st2 ++ map_of (rev (map ?g es))"
    by blast+
  have "dom (out_images st2) \<union> set (map ?f es) = dom (out_images st) \<union> set (map ?f (e # es))"
    unfolding i2 by auto
  moreover have "out_annotations st2 ++ map_of (rev (map ?g es)) =
      out_annotations st ++ map_of (rev (map ?g (e # es)))"
    unfolding a2 list.map by (rule map_add_rev_Cons[symmetric])
  ultimately show ?case
    unfolding step using r p p2 i o by presburger
qed

lemma image_keys_single:
  "image_keys [entry] (map alias_name es) =
     map (\<lambda>e. (''images_'' @ alias_name e,
                new_img_name (fst (splitext (fst entry))) (alias_name e) (snd (splitext (fst entry))))) es"
  by (simp add: image_keys_def comp_def)

lemma annotation_writes_single:
  assumes "ann_files (fst (splitext (fst entry)) @ ''.json'') = Some (Parsed (JObj kvs))"
  shows "annotation_writes ann_files [entry] (map alias_name es) =
     map (\<lambda>e. ((''annotations_'' @ alias_name e,
                 new_ann_name (fst (splitext (fst entry))) (alias_name e)),
                JObj (AList.update ''imagePath''
                        (JStr (new_img_name (fst (splitext (fst entry))) (alias_name e)
                                 (snd (splitext (fst entry))))) kvs))) es"
  using assms by (simp add: annotation_writes_def rewritten_def comp_def)

lemma item_succeedsD:
  assumes "item_succeeds L ann_files es entry"
  obtains kvs opened where
    "ann_files (fst (splitext (fst entry)) @ ''.json'') = Some (Parsed (JObj kvs))"
    "open_image L (snd entry) = Inr opened"
    "list_all (version_succeeds L (fst (splitext (fst entry))) (snd (splitext (fst entry)))
                 (snd opened) (fst opened)) es"
  using assms
  by (auto simp: item_succeeds_def split: option.splits file_read.splits json.splits sum.splits)

lemma process_image_succeeds:
  assumes img: "is_image_file (fst entry)" and ok: "item_succeeds L ann_files es entry"
  shows "enh_printed (process_image L ann_files d es entry st) =
           enh_printed st @ [Processed (fst entry) (length es)] \<and>
         dom (out_images (process_image L ann_files d es entry st)) =
           dom (out_images st) \<union> set (image_keys [entry] (map alias_name es)) \<and>
         out_annotations (process_image L ann_files d es entry st) =
           out_annotations st ++ map_of (rev (annotation_writes ann_files [entry] (map alias_name es)))"
proof -
  from ok obtain kvs opened where
    ann: "ann_files (fst (splitext (fst entry)) @ ''.json'') = Some (Parsed (JObj kvs))" and
    op: "open_image L (snd entry) = Inr opened" and
    all: "list_all (version_succeeds L (fst (splitext (fst entry))) (snd (splitext (fst entry)))
                 (snd opened) (fst opened)) es"
    by (rule item_succeedsD)
  obtain r st' where run: "enhance_all L ann_files d (fst (splitext (fst entry)))
      (snd (splitext (fst entry))) (snd opened) (fst opened) es st = (r, st')"
    by (cases "enhance_all L ann_files d (fst (splitext (fst entry)))
      (snd (splitext (fst entry))) (snd opened) (fst opened) es st") blast
  from enhance_all_succeeds[where ann_files = ann_files and kvs = kvs and L = L
      and base_name = "fst (splitext (fst entry))" and ext = "snd (splitext (fst entry))"
      and img = "snd opened" and exif = "fst opened" and es = es and d = d and st = st] ann all
    run have
    r: "r = None" and
    p: "enh_printed st' = enh_printed st" and
    i: "dom (out_images st') = dom (out_images st) \<union> set (image_keys [entry] (map alias_name es))" and
    a: "out_annotations st' =
          out_annotations st ++ map_of (rev (annotation_writes ann_files [entry] (map alias_name es)))"
    using annotation_writes_single[where ann_files = ann_files and entry = entry and kvs = kvs
        and es = es] ann
    by (simp_all add: image_keys_single)
  have "process_image L ann_files d es entry st = enh_say (Processed (fst entry) (length es)) st'"
    using img ann op run r by (simp add: process_image_def Let_def)
  then show ?thesis
    using p i a by (simp add: enh_say_def)
qed

lemma fold_process_image_succeeds:
  assumes "list_all (item_succeeds L ann_files es) (image_entries image_dir)"
  shows "enh_printed (fold (process_image L ann_files d es) image_dir st) =
           enh_printed st @
           map (\<lambda>entry. Processed (fst entry) (length es)) (image_entries image_dir) \<and>
         dom (out_images (fold (process_image L ann_files d es) image_dir st)) =
           dom (out_images st) \<union> set (image_keys (image_entries image_dir) (map alias_name es)) \<and>
         out_annotations (fold (process_image L ann_files d es) image_dir st) =
           out_annotations st ++
           map_of (rev (annotation_writes ann_files (image_entries image_dir) (map alias_name es)))"
  using assms
proof (induction image_dir arbitrary: st)
  case Nil
  show ?case by (simp add: image_entries_def image_keys_def annotation_writes_def)
next
  case (Cons entry image_dir)
  show ?case
  proof (cases "is_image_file (fst entry)")
    case False
    then have "process_image L ann_files d es entry st = st"
      by (simp add: process_image_def)
    moreover have "image_entries (entry # image_dir) = image_entries image_dir"
      using False by (simp add: image_entries_def)
    ultimately show ?thesis
      using Cons by simp
  next
    case True
    then have split: "image_entries (entry # image_dir) = entry # image_entries image_dir"
      by (simp add: image_entries_def)
    with Cons.prems have ok: "item_succeeds L ann_files es entry"
      and rest: "list_all (item_succeeds L ann_files es) (image_entries image_dir)"
      by simp_all
    define st1 where "st1 = process_image L ann_files d es entry st"
    from process_image_succeeds[OF True ok, of d st] have
      p1: "enh_printed st1 = enh_printed st @ [Processed (fst entry) (length es)]" and
      i1: "dom (out_images st1) =
             dom (out_images st) \<union> set (image_keys [entry] (map alias_name es))" and
      a1: "out_annotations st1 =
             out_annotations st ++
             map_of (rev (annotation_writes ann_files [entry] (map alias_name es)))"
      unfolding st1_def by blast+
    from Cons.IH[OF rest, of st1] have
      p: "enh_printed (fold (process_image L ann_files d es) image_dir st1) =
            enh_printed st1 @
            map (\<lambda>entry. Processed (fst entry) (length es)) (image_entries image_dir)" and
      i: "dom (out_images (fold (process_image L ann_files d es) image_dir st1)) =
            dom (out_images st1) \<union>
            set (image_keys (image_entries image_dir) (map alias_name es))" and
      a: "out_annotations (fold (process_image L ann_files d es) image_dir st1) =
            out_annotations st1 ++
            map_of (rev (annotation_writes ann_files (image_entries image_dir) (map alias_name es)))"
      by blast+
    have k: "image_keys (entry # image_entries image_dir) (map alias_name es) =
        image_keys [entry] (map alias_name es) @
        image_keys (image_entries image_dir) (map alias_name es)"
      by (simp add: image_keys_def)
    have w: "annotation_writes ann_files (entry # image_entries image_dir) (map alias_name es) =
        annotation_writes ann_files [entry] (map alias_name es) @
        annotation_writes ann_files (image_entries image_dir) (map alias_name es)"
      by (simp add: annotation_writes_def)
    have f: "fold (process_image L ann_files d es) (entry # image_dir) st =
        fold (process_image L ann_files d es) image_dir st1"
      by (simp add: st1_def)
    have "enh_printed (fold (process_image L ann_files d es) (entry # image_dir) st) =
        enh_printed st @
        map (\<lambda>entry. Processed (fst entry) (length es)) (image_entries (entry # image_dir))"
      unfolding f p p1 split by simp
    moreover have "dom (out_images (fold (process_image L ann_files d es) (entry # image_dir) st)) =
        dom (out_images st) \<union>
        set (image_keys (image_entries (entry # image_dir)) (map alias_name es))"
      unfolding f i i1 split k by auto
    moreover have "out_annotations (fold (process_image L ann_files d es) (entry # image_dir) st) =
        out_annotations st ++
        map_of (rev (annotation_writes ann_files (image_entries (entry # image_dir))
                       (map alias_name es)))"
      unfolding f a a1 split w by (rule map_add_rev_append[symmetric])
    ultimately show ?thesis
      by blast
  qed
qed

lemma annotation_writes_keys:
  "map fst (annotation_writes ann_files images as) = annotation_keys images as"
  by (simp add: annotation_writes_def annotation_keys_def map_concat comp_def)

lemma distinct_annotation_keys:
  assumes "distinct (map (\<lambda>entry. fst (splitext (fst entry))) images)" "distinct as"
  shows "distinct (annotation_keys images as)"
  unfolding annotation_keys_def
  by (rule distinct_keys[where f = "\<lambda>entry. fst (splitext (fst entry))", OF _ assms])
    (simp add: new_ann_name_def)

lemma distinct_image_keys:
  assumes "distinct (map (\<lambda>entry. fst (splitext (fst entry))) images)" "distinct as"
    and "\<forall>entry\<in>set images. is_image_file (fst entry)"
  shows "distinct (image_keys images as)"
  unfolding image_keys_def
proof (rule distinct_keys[where f = "\<lambda>entry. fst (splitext (fst entry))", OF _ assms(1,2)])
  fix x a y a'
  assume x: "x \<in> set images" and y: "y \<in> set images"
    and eq: "(''images_'' @ a, new_img_name (fst (splitext (fst x))) a (snd (splitext (fst x)))) =
             (''images_'' @ a', new_img_name (fst (splitext (fst y))) a' (snd (splitext (fst y))))"
  then have a: "a = a'" by simp
  from x y assms(3) have ix: "is_image_file (fst x)" and iy: "is_image_file (fst y)"
    by blast+
  have u: "CHR ''_'' \<notin> set (snd (splitext (fst x)))"
    "CHR ''_'' \<notin> set (snd (splitext (fst y)))"
    using image_extension_no_underscore[OF ix] image_extension_no_underscore[OF iy] by blast+
  from eq a have "fst (splitext (fst x)) @ (''_'' @ a) @ snd (splitext (fst x)) =
      fst (splitext (fst y)) @ (''_'' @ a) @ snd (splitext (fst y))"
    by (simp add: new_img_name_def)
  from names_cancel[OF this] u have "fst (splitext (fst x)) = fst (splitext (fst y))"
    by simp
  with a show "fst (splitext (fst x)) = fst (splitext (fst y)) \<and> a = a'"
    by simp
qed

lemma card_keys:
  "distinct (concat (map (\<lambda>x. map (k x) as) xs)) \<Longrightarrow>
   card (set (concat (map (\<lambda>x. map (k x) as) xs))) = length xs * length as"
  by (metis distinct_card length_keys)

lemma annotation_write_mem:
  assumes "entry \<in> set images" "a \<in> set as"
  shows "((''annotations_'' @ a, new_ann_name (fst (splitext (fst entry))) a),
          rewritten ann_files (fst (splitext (fst entry)))
            (new_img_name (fst (splitext (fst entry))) a (snd (splitext (fst entry)))))
         \<in> set (annotation_writes ann_files images as)"
  using assms by (auto simp: annotation_writes_def)

lemma image_key_mem:
  assumes "entry \<in> set images" "a \<in> set as"
  shows "(''images_'' @ a,
          new_img_name (fst (splitext (fst entry))) a (snd (splitext (fst entry))))
         \<in> set (image_keys images as)"
  using assms by (auto simp: image_keys_def)


lemma a_jpg_image: "is_image_file ''a.jpg''"
  by code_simp

lemma b_jpg_image: "is_image_file ''b.jpg''"
  by code_simp

lemma a_jpg_split: "splitext ''a.jpg'' = (''a'', ''.jpg'')"
  by code_simp

lemma b_jpg_split: "splitext ''b.jpg'' = (''b'', ''.jpg'')"
  by code_simp

text \<open>
  Claim C5, as stated, fails: two images with the same base name are each paired
  with the one annotation of that name, both are processed without failure, and
  the second annotation written replaces the first. With one alias the run leaves
  two images and one annotation, whose \<^verbatim>\<open>imagePath\<close> names the second image.
\<close>

theorem same_base_name_one_annotation:
  "list_all (item_succeeds tag_pil one_annotation [brighter]) (image_entries same_base_images) \<and>
   length (image_entries same_base_images) * length [brighter] = 2 \<and>
   process_dataset tag_pil same_base_images one_annotation ''ann'' [brighter] empty_output =
     \<lparr>out_dirs = [''images_x'', ''annotations_x''],
      out_images = [(''images_x'', ''a_x.png'') \<mapsto> (''iB'', None),
                    (''images_x'', ''a_x.jpg'') \<mapsto> (''jB'', None)],
      out_annotations = [(''annotations_x'', ''a_x.json'') \<mapsto>
        JObj [(''version'', JStr ''5.0''), (''imagePath'', JStr ''a_x.jpg''),
              (''imageHeight'', JInt 200), (''shapes'', JArr [])]],
      enh_printed = [Processed ''a.png'' 1, Processed ''a.jpg'' 1]\<rparr> \<and>
   card (dom (out_annotations
     (process_dataset tag_pil same_base_images one_annotation ''ann'' [brighter] empty_output))) = 1"
proof -
  have e: "apply_enhancement tag_pil img (parameters brighter) = Inr (img @ ''B'')" for img
    by (simp add: apply_enhancement_def tag_pil_def brighter_def)
  have o: "open_image tag_pil (Inr img) = Inr (None, img)" for img
    by (simp add: open_image_def tag_pil_def)
  have s: "save_error tag_pil img d n x = None" "write_error tag_pil d n = None" for img d n x
    by (simp_all add: tag_pil_def)
  have a: "one_annotation ''a.json'' = Some (Parsed (JObj a_annotation))"
    by (simp add: one_annotation_def)
  have n: "alias_name brighter = ''x''"
    by (simp add: brighter_def)
  have y: "sync_annotation tag_pil one_annotation d ''a'' al img_name st =
      st\<lparr>out_annotations := (out_annotations st)
           ((''annotations_'' @ al, new_ann_name ''a'' al) \<mapsto>
              JObj (AList.update ''imagePath'' (JStr img_name) a_annotation))\<rparr>"
    for d al img_name and st :: "(string, rat) enh_state"
    using sync_annotation_writes[of one_annotation "''a''" a_annotation tag_pil al d img_name st] a s
    by simp
  have entries: "image_entries same_base_images = same_base_images"
    by (simp add: image_entries_def same_base_images_def a_png_image a_jpg_image)
  have ok: "list_all (item_succeeds tag_pil one_annotation [brighter]) (image_entries same_base_images)"
    unfolding entries
    by (simp add: same_base_images_def item_succeeds_def a_png_split a_jpg_split a o
        version_succeeds_def e s)
  have run: "process_dataset tag_pil same_base_images one_annotation ''ann'' [brighter] empty_output =
     \<lparr>out_dirs = [''images_x'', ''annotations_x''],
      out_images = [(''images_x'', ''a_x.png'') \<mapsto> (''iB'', None),
                    (''images_x'', ''a_x.jpg'') \<mapsto> (''jB'', None)],
      out_annotations = [(''annotations_x'', ''a_x.json'') \<mapsto>
        JObj [(''version'', JStr ''5.0''), (''imagePath'', JStr ''a_x.jpg''),
              (''imageHeight'', JInt 200), (''shapes'', JArr [])]],
      enh_printed = [Processed ''a.png'' 1, Processed ''a.jpg'' 1]\<rparr>"
    unfolding process_dataset_def same_base_images_def
    by (simp add: process_image_def a_png_image a_png_split a_jpg_image a_jpg_split a o e s n y
        make_dirs_def new_img_name_def new_ann_name_def enh_say_def empty_output_def
        a_annotation_def)
  have len: "length (image_entries same_base_images) * length [brighter] = 2"
    unfolding entries by (simp add: same_base_images_def)
  have c: "card (dom (out_annotations
      (process_dataset tag_pil same_base_images one_annotation ''ann'' [brighter] empty_output))) = 1"
    unfolding run by simp
  from ok len run c show ?thesis
    by blast
qed

text \<open>
  Claim C5, amended. Let the images of the data set have pairwise distinct base
  names, let the aliases of the configuration be pairwise distinct, and let every
  image be processed without failure. Then the run adds to the output exactly the
  images \<^verbatim>\<open>{base}_{alias}{ext}\<close> and the annotations \<^verbatim>\<open>{base}_{alias}.json\<close>, for each image
  and each alias; they are \<open>N \<times> M\<close> images and \<open>N \<times> M\<close> annotations; the run prints one
  line for each image, saying that it was processed; and for each image and each
  enhancement the annotation left under \<^verbatim>\<open>{base}_{alias}.json\<close> is the annotation of the
  image with its \<^verbatim>\<open>imagePath\<close> replaced by \<^verbatim>\<open>{base}_{alias}{ext}\<close>, the name of an image
  of the output.
\<close>

theorem enhanced_versions_count:
  assumes ok: "list_all (item_succeeds L ann_files enhancements) (image_entries image_dir)"
    and bases: "distinct (map (\<lambda>entry. fst (splitext (fst entry))) (image_entries image_dir))"
    and aliases: "distinct (map alias_name enhancements)"
  shows "dom (out_images (process_dataset L image_dir ann_files annotation_dir enhancements st)) =
           dom (out_images st) \<union>
           set (image_keys (image_entries image_dir) (map alias_name enhancements)) \<and>
         card (set (image_keys (image_entries image_dir) (map alias_name enhancements))) =
           length (image_entries image_dir) * length enhancements \<and>
         dom (out_annotations (process_dataset L image_dir ann_files annotation_dir enhancements st)) =
           dom (out_annotations st) \<union>
           set (annotation_keys (image_entries image_dir) (map alias_name enhancements)) \<and>
         card (set (annotation_keys (image_entries image_dir) (map alias_name enhancements))) =
           length (image_entries image_dir) * length enhancements \<and>
         enh_printed (process_dataset L image_dir ann_files annotation_dir enhancements st) =
           enh_printed st @
           map (\<lambda>entry. Processed (fst entry) (length enhancements)) (image_entries image_dir) \<and>
         (\<forall>entry\<in>set (image_entries image_dir). \<forall>e\<in>set enhancements.
            (''images_'' @ alias_name e,
             new_img_name (fst (splitext (fst entry))) (alias_name e) (snd (splitext (fst entry))))
              \<in> dom (out_images
                      (process_dataset L image_dir ann_files annotation_dir enhancements st)) \<and>
            (\<exists>doc.
               out_annotations
                 (process_dataset L image_dir ann_files annotation_dir enhancements st)
                 (''annotations_'' @ alias_name e,
                  new_ann_name (fst (splitext (fst entry))) (alias_name e)) = Some doc \<and>
               annotation_for ann_files (fst (splitext (fst entry))) (snd (splitext (fst entry))) e
                 (''annotations_'' @ alias_name e,
                  new_ann_name (fst (splitext (fst entry))) (alias_name e)) doc))"
proof -
  let ?images = "image_entries image_dir"
  let ?as = "map alias_name enhancements"
  let ?final = "process_dataset L image_dir ann_files annotation_dir enhancements st"
  let ?W = "annotation_writes ann_files ?images ?as"
  from fold_process_image_succeeds[OF ok, of annotation_dir "make_dirs enhancements st"] have
    p: "enh_printed ?final =
          enh_printed st @ map (\<lambda>entry. Processed (fst entry) (length enhancements)) ?images" and
    i: "dom (out_images ?final) = dom (out_images st) \<union> set (image_keys ?images ?as)" and
    a: "out_annotations ?final = out_annotations st ++ map_of (rev ?W)"
    by (simp_all add: process_dataset_def)
  have all_images: "\<forall>entry\<in>set ?images. is_image_file (fst entry)"
    by (simp add: image_entries_def)
  have di: "distinct (image_keys ?images ?as)"
    using bases aliases all_images by (rule distinct_image_keys)
  have da: "distinct (annotation_keys ?images ?as)"
    using bases aliases by (rule distinct_annotation_keys)
  have ci: "card (set (image_keys ?images ?as)) = length ?images * length enhancements"
    using di card_keys[of _ ?as ?images] by (simp add: image_keys_def)
  have ca: "card (set (annotation_keys ?images ?as)) = length ?images * length enhancements"
    using da card_keys[of _ ?as ?images] by (simp add: annotation_keys_def)
  have dom_a: "dom (out_annotations ?final) =
      dom (out_annotations st) \<union> set (annotation_keys ?images ?as)"
  proof -
    have "set (annotation_keys ?images ?as) = fst ` set ?W"
      using annotation_writes_keys[of ann_files ?images ?as] by (metis set_map)
    then show ?thesis
      unfolding a by (auto simp: dom_map_of_conv_image_fst)
  qed
  have each: "(''images_'' @ alias_name e,
        new_img_name (fst (splitext (fst entry))) (alias_name e) (snd (splitext (fst entry))))
          \<in> dom (out_images ?final) \<and>
      (\<exists>doc. out_annotations ?final
          (''annotations_'' @ alias_name e,
           new_ann_name (fst (splitext (fst entry))) (alias_name e)) = Some doc \<and>
        annotation_for ann_files (fst (splitext (fst entry))) (snd (splitext (fst entry))) e
          (''annotations_'' @ alias_name e,
           new_ann_name (fst (splitext (fst entry))) (alias_name e)) doc)"
    if entry: "entry \<in> set ?images" and e: "e \<in> set enhancements" for entry e
  proof
    from e have al: "alias_name e \<in> set ?as" by simp
    from image_key_mem[OF entry al] show "(''images_'' @ alias_name e,
        new_img_name (fst (splitext (fst entry))) (alias_name e) (snd (splitext (fst entry))))
          \<in> dom (out_images ?final)"
      unfolding i by blast
    let ?key = "(''annotations_'' @ alias_name e,
                 new_ann_name (fst (splitext (fst entry))) (alias_name e))"
    let ?doc = "rewritten ann_files (fst (splitext (fst entry)))
                  (new_img_name (fst (splitext (fst entry))) (alias_name e)
                     (snd (splitext (fst entry))))"
    have "(?key, ?doc) \<in> set (rev ?W)"
      using annotation_write_mem[OF entry al, of ann_files] by simp
    moreover have "distinct (map fst (rev ?W))"
      using da by (simp add: rev_map[symmetric] annotation_writes_keys)
    ultimately have "map_of (rev ?W) ?key = Some ?doc"
      by (rule map_of_is_SomeI[rotated])
    then have written: "out_annotations ?final ?key = Some ?doc"
      unfolding a by (simp add: map_add_Some_iff)
    from ok entry have "item_succeeds L ann_files enhancements entry"
      by (simp add: list_all_iff)
    then obtain kvs where
      k: "ann_files (fst (splitext (fst entry)) @ ''.json'') = Some (Parsed (JObj kvs))"
      by (rule item_succeedsD)
    then have "?doc = JObj (AList.update ''imagePath''
        (JStr (new_img_name (fst (splitext (fst entry))) (alias_name e)
                 (snd (splitext (fst entry))))) kvs)"
      by (simp add: rewritten_def)
    with k have "annotation_for ann_files (fst (splitext (fst entry)))
        (snd (splitext (fst entry))) e ?key ?doc"
      using annotation_forI[where ann_files = ann_files and kvs = kvs and e = e
          and base_name = "fst (splitext (fst entry))" and ext = "snd (splitext (fst entry))"
          and key = ?key and doc = ?doc]
      by simp
    with written show "\<exists>doc. out_annotations ?final ?key = Some doc \<and>
        annotation_for ann_files (fst (splitext (fst entry))) (snd (splitext (fst entry))) e
          ?key doc"
      by blast
  qed
  from i ci dom_a ca p each show ?thesis
    by blast
qed

lemma two_images_entries: "image_entries two_images = two_images"
  by (simp add: image_entries_def two_images_def a_png_image b_jpg_image)

lemma two_images_succeed:
  "list_all (item_succeeds tag_pil two_annotations [brighter, softer]) (image_entries two_images)"
proof -
  have e: "apply_enhancement tag_pil img (parameters brighter) = Inr (img @ ''B'')"
    "apply_enhancement tag_pil img (parameters softer) = Inr (img @ ''G'')" for img
    by (simp_all add: apply_enhancement_def tag_pil_def brighter_def softer_def)
  have o: "open_image tag_pil (Inr img) = Inr (None, img)" for img
    by (simp add: open_image_def tag_pil_def)
  have s: "save_error tag_pil img d n x = None" "write_error tag_pil d n = None" for img d n x
    by (simp_all add: tag_pil_def)
  have a: "two_annotations ''a.json'' = Some (Parsed (JObj a_annotation))"
    "two_annotations ''b.json'' = Some (Parsed (JObj [(''shapes'', JArr [])]))"
    by (simp_all add: two_annotations_def)
  show ?thesis
    unfolding two_images_entries
    by (simp add: two_images_def item_succeeds_def a_png_split b_jpg_split a o
        version_succeeds_def e s)
qed

theorem enhanced_versions_count_witness:
  "dom (out_images (process_dataset tag_pil two_images two_annotations ''ann'' [brighter, softer]
          empty_output)) =
     dom (out_images empty_output) \<union>
     set (image_keys (image_entries two_images) (map alias_name [brighter, softer])) \<and>
   card (set (image_keys (image_entries two_images) (map alias_name [brighter, softer]))) =
     length (image_entries two_images) * length [brighter, softer] \<and>
   dom (out_annotations (process_dataset tag_pil two_images two_annotations ''ann''
          [brighter, softer] empty_output)) =
     dom (out_annotations empty_output) \<union>
     set (annotation_keys (image_entries two_images) (map alias_name [brighter, softer])) \<and>
   card (set (annotation_keys (image_entries two_images) (map alias_name [brighter, softer]))) =
     length (image_entries two_images) * length [brighter, softer] \<and>
   length (image_entries two_images) * length [brighter, softer] = 4 \<and>
   enh_printed (process_dataset tag_pil two_images two_annotations ''ann'' [brighter, softer]
       empty_output) =
     enh_printed empty_output @
     map (\<lambda>entry. Processed (fst entry) (length [brighter, softer])) (image_entries two_images) \<and>
   (''images_y'', ''b_y.jpg'') \<in>
     dom (out_images (process_dataset tag_pil two_images two_annotations ''ann''
            [brighter, softer] empty_output)) \<and>
   (\<exists>doc.
      out_annotations (process_dataset tag_pil two_images two_annotations ''ann''
          [brighter, softer] empty_output) (''annotations_y'', ''b_y.json'') = Some doc \<and>
      annotation_for two_annotations ''b'' ''.jpg'' softer (''annotations_y'', ''b_y.json'') doc)"
proof -
  have bases: "distinct (map (\<lambda>entry. fst (splitext (fst entry))) (image_entries two_images))"
    unfolding two_images_entries by (simp add: two_images_def a_png_split b_jpg_split)
  have aliases: "distinct (map alias_name [brighter, softer])"
    by (simp add: brighter_def softer_def)
  have m: "(''b.jpg'', Inr ''j'') \<in> set (image_entries two_images)" "softer \<in> set [brighter, softer]"
    unfolding two_images_entries by (simp_all add: two_images_def)
  have n: "length (image_entries two_images) * length [brighter, softer] = 4"
    unfolding two_images_entries by (simp add: two_images_def)
  have names: "''images_'' @ alias_name softer = ''images_y''"
    "''annotations_'' @ alias_name softer = ''annotations_y''"
    "new_img_name ''b'' (alias_name softer) ''.jpg'' = ''b_y.jpg''"
    "new_ann_name ''b'' (alias_name softer) = ''b_y.json''"
    by (simp_all add: softer_def new_img_name_def new_ann_name_def)
  note run = enhanced_versions_count[OF two_images_succeed bases aliases, of "''ann''" empty_output]
  note c1 = run[THEN conjunct1]
    and c2 = run[THEN conjunct2, THEN conjunct1]
    and c3 = run[THEN conjunct2, THEN conjunct2, THEN conjunct1]
    and c4 = run[THEN conjunct2, THEN conjunct2, THEN conjunct2, THEN conjunct1]
    and c5 = run[THEN conjunct2, THEN conjunct2, THEN conjunct2, THEN conjunct2, THEN conjunct1]
    and c6 = run[THEN conjunct2, THEN conjunct2, THEN conjunct2, THEN conjunct2, THEN conjunct2]
  note pair = bspec[OF bspec[OF c6 m(1)] m(2)]
  note c7 = pair[THEN conjunct1, unfolded fst_conv b_jpg_split snd_conv names]
    and c8 = pair[THEN conjunct2, unfolded fst_conv b_jpg_split snd_conv names]
  from c1 c2 c3 c4 n c5 c7 c8 show ?thesis
    by blast
qed

end
